theory Spec2Isabelle
  imports Complex_Main
begin

section \<open>Double-precision values\<close>

text \<open>
  The program computes on C \<^verbatim>\<open>double\<close> values. They are modelled as IEEE 754 binary64
  data: a quiet NaN, the two infinities, and the finite values as a sign and a
  non-negative magnitude (so that both zeros exist). In every constructor the flag is
  \<open>True\<close> for a negative sign. The payload of a NaN is not represented: no operation of
  the program reads it.
\<close>

datatype double = NaN | Infinity bool | Finite bool rat

fun bitlen :: "nat \<Rightarrow> nat" where
  "bitlen n = (if n = 0 then 0 else Suc (bitlen (n div 2)))"

declare bitlen.simps [simp del]

text \<open>\<open>ilog2 q\<close> is the integer \<open>e\<close> with \<open>2 powi e \<le> q < 2 powi (e + 1)\<close>, for \<open>0 < q\<close>.\<close>

definition ilog2 :: "rat \<Rightarrow> int" where
  "ilog2 q = (if 1 \<le> q then int (bitlen (nat \<lfloor>q\<rfloor>)) - 1
              else - int (bitlen (nat (\<lceil>1 / q\<rceil> - 1))))"

definition round_half_even :: "rat \<Rightarrow> int" where
  "round_half_even q =
     (let f = \<lfloor>q\<rfloor>; d = q - of_int f
      in if d < 1 / 2 then f else if 1 / 2 < d then f + 1 else if even f then f else f + 1)"

text \<open>
  Rounding of an exact magnitude \<open>q \<ge> 0\<close> with sign \<open>s\<close> to binary64, to nearest with
  ties to even: 53 significant bits, least exponent \<open>-1022\<close> (below it the spacing stays
  \<open>2 powi (-1074)\<close>, the subnormal range), overflow to infinity from \<open>2 powi 1024\<close> on.
\<close>

definition round_binary64 :: "bool \<Rightarrow> rat \<Rightarrow> double" where
  "round_binary64 s q =
     (if q = 0 then Finite s 0
      else let e = max (ilog2 q) (- 1022);
               u = 2 powi (e - 52);
               r = of_int (round_half_even (q / u)) * u
           in if 2 powi 1024 \<le> r then Infinity s else Finite s r)"

text \<open>A decimal literal of the source, and the conversion of an integer to \<^verbatim>\<open>double\<close>.\<close>

definition dlit :: "rat \<Rightarrow> double" where
  "dlit q = round_binary64 (q < 0) \<bar>q\<bar>"

definition double_of_int :: "int \<Rightarrow> double" where
  "double_of_int k = round_binary64 (k < 0) (of_int \<bar>k\<bar>)"

definition dval :: "bool \<Rightarrow> rat \<Rightarrow> rat" where
  "dval s a = (if s then - a else a)"

fun dneg :: "double \<Rightarrow> double" where
  "dneg NaN = NaN"
| "dneg (Infinity s) = Infinity (\<not> s)"
| "dneg (Finite s a) = Finite (\<not> s) a"

fun fabs :: "double \<Rightarrow> double" where
  "fabs NaN = NaN"
| "fabs (Infinity s) = Infinity False"
| "fabs (Finite s a) = Finite False a"

fun dmul :: "double \<Rightarrow> double \<Rightarrow> double" where
  "dmul NaN y = NaN"
| "dmul x NaN = NaN"
| "dmul (Infinity s) (Infinity t) = Infinity (s \<noteq> t)"
| "dmul (Infinity s) (Finite t b) = (if b = 0 then NaN else Infinity (s \<noteq> t))"
| "dmul (Finite s a) (Infinity t) = (if a = 0 then NaN else Infinity (s \<noteq> t))"
| "dmul (Finite s a) (Finite t b) = round_binary64 (s \<noteq> t) (a * b)"

fun dadd :: "double \<Rightarrow> double \<Rightarrow> double" where
  "dadd NaN y = NaN"
| "dadd x NaN = NaN"
| "dadd (Infinity s) (Infinity t) = (if s = t then Infinity s else NaN)"
| "dadd (Infinity s) (Finite t b) = Infinity s"
| "dadd (Finite s a) (Infinity t) = Infinity t"
| "dadd (Finite s a) (Finite t b) =
     (let v = dval s a + dval t b
      in if v = 0 then Finite (s \<and> t) 0 else round_binary64 (v < 0) \<bar>v\<bar>)"

definition dsub :: "double \<Rightarrow> double \<Rightarrow> double" where
  "dsub x y = dadd x (dneg y)"

fun ddiv :: "double \<Rightarrow> double \<Rightarrow> double" where
  "ddiv NaN y = NaN"
| "ddiv x NaN = NaN"
| "ddiv (Infinity s) (Infinity t) = NaN"
| "ddiv (Infinity s) (Finite t b) = Infinity (s \<noteq> t)"
| "ddiv (Finite s a) (Infinity t) = Finite (s \<noteq> t) 0"
| "ddiv (Finite s a) (Finite t b) =
     (if b = 0 then (if a = 0 then NaN else Infinity (s \<noteq> t))
      else round_binary64 (s \<noteq> t) (a / b))"

text \<open>The comparisons \<^verbatim>\<open>x > y\<close> and \<^verbatim>\<open>x <= y\<close> of C: both are false when an operand is NaN.\<close>

fun dgt :: "double \<Rightarrow> double \<Rightarrow> bool" where
  "dgt NaN y = False"
| "dgt x NaN = False"
| "dgt (Infinity s) (Infinity t) = (\<not> s \<and> t)"
| "dgt (Infinity s) (Finite t b) = (\<not> s)"
| "dgt (Finite s a) (Infinity t) = t"
| "dgt (Finite s a) (Finite t b) = (dval t b < dval s a)"

fun dle :: "double \<Rightarrow> double \<Rightarrow> bool" where
  "dle NaN y = False"
| "dle x NaN = False"
| "dle (Infinity s) (Infinity t) = (s \<or> \<not> t)"
| "dle (Infinity s) (Finite t b) = s"
| "dle (Finite s a) (Infinity t) = (\<not> t)"
| "dle (Finite s a) (Finite t b) = (dval s a \<le> dval t b)"

section \<open>Memory\<close>

text \<open>
  A pointer is null or names a cell of a block: the block's number and the offset of the
  cell in it, counted in \<^verbatim>\<open>double\<close> cells. The memory maps each live block to its
  contents. An access through a null pointer, into a block that is not live or past the
  end of a block is undefined behaviour in C; the model returns a fault.
\<close>

datatype ptr = Null | Ptr nat nat

datatype fault = NullDeref | DeadBlock | OutOfBounds | BadFree

type_synonym memory = "nat \<rightharpoonup> double list"

definition load :: "memory \<Rightarrow> ptr \<Rightarrow> nat \<Rightarrow> fault + double" where
  "load m p i =
     (case p of
        Null \<Rightarrow> Inl NullDeref
      | Ptr b off \<Rightarrow>
          (case m b of
             None \<Rightarrow> Inl DeadBlock
           | Some vs \<Rightarrow> if off + i < length vs then Inr (vs ! (off + i)) else Inl OutOfBounds))"

definition store :: "memory \<Rightarrow> ptr \<Rightarrow> nat \<Rightarrow> double \<Rightarrow> fault + memory" where
  "store m p i v =
     (case p of
        Null \<Rightarrow> Inl NullDeref
      | Ptr b off \<Rightarrow>
          (case m b of
             None \<Rightarrow> Inl DeadBlock
           | Some vs \<Rightarrow>
               if off + i < length vs then Inr (m(b \<mapsto> vs[off + i := v])) else Inl OutOfBounds))"

text \<open>The cell that \<^verbatim>\<open>p[i]\<close> denotes, when \<open>p\<close> is not null.\<close>

fun elem :: "ptr \<Rightarrow> nat \<Rightarrow> (nat \<times> nat) option" where
  "elem Null i = None"
| "elem (Ptr b off) i = Some (b, off + i)"

section \<open>The reference kernel\<close>

text \<open>
  \<^verbatim>\<open>daxpy_c\<close> (main.c, lines 14 to 18). The loop counter is a \<^verbatim>\<open>size_t\<close>; it stays below
  \<open>n\<close>, so its increment never wraps. The right-hand side is evaluated as it is written:
  the product is rounded, then the sum.
\<close>

function daxpy_c_loop :: "memory \<Rightarrow> ptr \<Rightarrow> ptr \<Rightarrow> ptr \<Rightarrow> double \<Rightarrow> nat \<Rightarrow> nat \<Rightarrow> fault + memory" where
  "daxpy_c_loop m z x y A n i =
     (if i < n then
        (case load m x i of
           Inl e \<Rightarrow> Inl e
         | Inr xi \<Rightarrow>
             (case load m y i of
                Inl e \<Rightarrow> Inl e
              | Inr yi \<Rightarrow>
                  (case store m z i (dadd (dmul A xi) yi) of
                     Inl e \<Rightarrow> Inl e
                   | Inr m' \<Rightarrow> daxpy_c_loop m' z x y A n (i + 1))))
      else Inr m)"
  by pat_completeness auto
termination
  by (relation "measure (\<lambda>(m, z, x, y, A, n, i). n - i)") auto

declare daxpy_c_loop.simps [simp del]

definition daxpy_c :: "memory \<Rightarrow> ptr \<Rightarrow> ptr \<Rightarrow> ptr \<Rightarrow> double \<Rightarrow> nat \<Rightarrow> fault + memory" where
  "daxpy_c m z x y A n = daxpy_c_loop m z x y A n 0"

text \<open>
  Modelled from the spec: the optimized kernel \<^verbatim>\<open>daxpy_asm\<close>, whose assembly source is not
  among the sources (main.c, line 11, only declares it). The spec gives it the contract
  of the reference kernel, with the scalar passed by address and the results written in
  place into the output buffer.
\<close>

definition daxpy_asm_contract :: "memory \<Rightarrow> ptr \<Rightarrow> ptr \<Rightarrow> ptr \<Rightarrow> ptr \<Rightarrow> nat \<Rightarrow> fault + memory" where
  "daxpy_asm_contract m z x y pA n =
     (case load m pA 0 of Inl e \<Rightarrow> Inl e | Inr A \<Rightarrow> daxpy_c m z x y A n)"

section \<open>The environment and the state of a run\<close>

text \<open>
  What the program takes from outside: whether the \<open>k\<close>-th call of \<^verbatim>\<open>malloc\<close> succeeds,
  the indeterminate contents of a fresh block, the value of the \<open>k\<close>-th call of \<^verbatim>\<open>clock\<close>,
  the constant \<^verbatim>\<open>CLOCKS_PER_SEC\<close> of \<^verbatim>\<open>time.h\<close>, and the routine linked as \<^verbatim>\<open>daxpy_asm\<close>,
  which acts on the memory.
\<close>

record env =
  malloc_ok :: "nat \<Rightarrow> bool"
  garbage :: "nat \<Rightarrow> nat \<Rightarrow> double"
  clock_at :: "nat \<Rightarrow> int"
  CLOCKS_PER_SEC :: int
  daxpy_asm :: "memory \<Rightarrow> ptr \<Rightarrow> ptr \<Rightarrow> ptr \<Rightarrow> ptr \<Rightarrow> nat \<Rightarrow> fault + memory"

text \<open>
  The trace records each \<^verbatim>\<open>printf\<close> of the program with the values it prints (one event
  for the consecutive calls that print one block of the report), and the calls of
  \<^verbatim>\<open>clock\<close> and of the two kernels. The label \<^verbatim>\<open>(2^%d)\<close> of the size banner is text
  computed from \<open>n\<close> by \<^verbatim>\<open>log2\<close>; the event keeps \<open>n\<close>.
\<close>

datatype event =
    VerifyBanner
  | ShowInput double "double list" "double list"
  | ShowProcess nat double double double double
  | ShowOutputC "double list"
  | ShowOutputAsm "double list"
  | VerifyVerdict bool
  | Mismatch nat double double double
  | SizeBanner nat
  | AllocFailed
  | BenchVerdict bool
  | FirstTenLabel string
  | FirstTenElem nat double
  | AvgTimes double double
  | AllDone
  | ClockRead int
  | CallC ptr ptr ptr double nat
  | CallAsm ptr ptr ptr ptr nat

record world =
  mem :: memory
  blocks :: nat
  mallocs :: nat
  clocks :: nat
  trace :: "event list"

definition initial :: world where
  "initial = \<lparr>mem = Map.empty, blocks = 0, mallocs = 0, clocks = 0, trace = []\<rparr>"

definition andthen :: "fault + 'a \<Rightarrow> ('a \<Rightarrow> fault + 'b) \<Rightarrow> fault + 'b" where
  "andthen r f = (case r of Inl e \<Rightarrow> Inl e | Inr v \<Rightarrow> f v)"

definition emit :: "event \<Rightarrow> world \<Rightarrow> world" where
  "emit e s = s\<lparr>trace := trace s @ [e]\<rparr>"

text \<open>
  A new block takes the next block number. Local arrays, and a local variable whose
  address is taken, are blocks that end with the function.
\<close>

definition new_block :: "double list \<Rightarrow> world \<Rightarrow> ptr \<times> world" where
  "new_block vs s = (Ptr (blocks s) 0, s\<lparr>mem := (mem s)(blocks s \<mapsto> vs), blocks := blocks s + 1\<rparr>)"

fun end_block :: "ptr \<Rightarrow> world \<Rightarrow> world" where
  "end_block Null s = s"
| "end_block (Ptr b off) s = s\<lparr>mem := (mem s)(b := None)\<rparr>"

text \<open>
  \<^verbatim>\<open>malloc\<close> of a number of bytes: a block of as many \<^verbatim>\<open>double\<close> cells as fit
  (\<^verbatim>\<open>sizeof(double)\<close> is 8), or the null pointer. \<^verbatim>\<open>free\<close> of the null pointer does
  nothing.
\<close>

definition malloc :: "env \<Rightarrow> nat \<Rightarrow> world \<Rightarrow> ptr \<times> world" where
  "malloc E bytes s =
     (if malloc_ok E (mallocs s)
      then new_block (map (garbage E (blocks s)) [0..<bytes div 8]) (s\<lparr>mallocs := mallocs s + 1\<rparr>)
      else (Null, s\<lparr>mallocs := mallocs s + 1\<rparr>))"

definition free :: "ptr \<Rightarrow> world \<Rightarrow> fault + world" where
  "free p s =
     (case p of
        Null \<Rightarrow> Inr s
      | Ptr b off \<Rightarrow>
          if off = 0 \<and> mem s b \<noteq> None then Inr (s\<lparr>mem := (mem s)(b := None)\<rparr>) else Inl BadFree)"

definition clock :: "env \<Rightarrow> world \<Rightarrow> int \<times> world" where
  "clock E s =
     (clock_at E (clocks s), emit (ClockRead (clock_at E (clocks s))) (s\<lparr>clocks := clocks s + 1\<rparr>))"

definition call_daxpy_c :: "ptr \<Rightarrow> ptr \<Rightarrow> ptr \<Rightarrow> double \<Rightarrow> nat \<Rightarrow> world \<Rightarrow> fault + world" where
  "call_daxpy_c z x y A n s =
     andthen (daxpy_c (mem s) z x y A n) (\<lambda>m'. Inr (emit (CallC z x y A n) (s\<lparr>mem := m'\<rparr>)))"

definition call_daxpy_asm :: "env \<Rightarrow> ptr \<Rightarrow> ptr \<Rightarrow> ptr \<Rightarrow> ptr \<Rightarrow> nat \<Rightarrow> world \<Rightarrow> fault + world" where
  "call_daxpy_asm E z x y pA n s =
     andthen (daxpy_asm E (mem s) z x y pA n) (\<lambda>m'. Inr (emit (CallAsm z x y pA n) (s\<lparr>mem := m'\<rparr>)))"

section \<open>The helper functions\<close>

definition RUNS :: int where
  "RUNS = 30"

definition EPS :: double where
  "EPS = dlit (1 / 10 ^ 9)"

text \<open>
  \<^verbatim>\<open>init_data\<close> (lines 21 to 27). \<^verbatim>\<open>size_t\<close> has 64 bits on the x86-64 target of the
  assembly kernel: the product \<^verbatim>\<open>i * 7\<close> wraps modulo \<open>2 ^ 64\<close>.
\<close>

function init_data_loop :: "memory \<Rightarrow> ptr \<Rightarrow> ptr \<Rightarrow> nat \<Rightarrow> nat \<Rightarrow> fault + memory" where
  "init_data_loop m x y n i =
     (if i < n then
        (case store m x i (dmul (double_of_int (int (i mod 1000))) (dlit (1 / 1000))) of
           Inl e \<Rightarrow> Inl e
         | Inr m1 \<Rightarrow>
             (case store m1 y i
                     (dmul (double_of_int (int (((i * 7) mod 2 ^ 64) mod 1000))) (dlit (2 / 1000))) of
                Inl e \<Rightarrow> Inl e
              | Inr m2 \<Rightarrow> init_data_loop m2 x y n (i + 1)))
      else Inr m)"
  by pat_completeness auto
termination
  by (relation "measure (\<lambda>(m, x, y, n, i). n - i)") auto

declare init_data_loop.simps [simp del]

definition init_data :: "memory \<Rightarrow> ptr \<Rightarrow> ptr \<Rightarrow> nat \<Rightarrow> fault + memory" where
  "init_data m x y n = init_data_loop m x y n 0"

text \<open>\<^verbatim>\<open>check_correctness\<close> (lines 29 to 40): the result is the \<^verbatim>\<open>int\<close> it returns.\<close>

function check_correctness_loop :: "ptr \<Rightarrow> ptr \<Rightarrow> nat \<Rightarrow> nat \<Rightarrow> world \<Rightarrow> fault + (int \<times> world)" where
  "check_correctness_loop ref test n i s =
     (if i < n then
        (case load (mem s) ref i of
           Inl e \<Rightarrow> Inl e
         | Inr r \<Rightarrow>
             (case load (mem s) test i of
                Inl e \<Rightarrow> Inl e
              | Inr t \<Rightarrow>
                  (let diff = fabs (dsub r t)
                   in if dgt diff EPS then Inr (0, emit (Mismatch i r t diff) s)
                      else check_correctness_loop ref test n (i + 1) s)))
      else Inr (1, s))"
  by pat_completeness auto
termination
  by (relation "measure (\<lambda>(ref, test, n, i, s). n - i)") auto

declare check_correctness_loop.simps [simp del]

definition check_correctness :: "ptr \<Rightarrow> ptr \<Rightarrow> nat \<Rightarrow> world \<Rightarrow> fault + (int \<times> world)" where
  "check_correctness ref test n s = check_correctness_loop ref test n 0 s"

text \<open>\<^verbatim>\<open>print_first_ten\<close> (lines 42 to 47).\<close>

function print_first_ten_loop :: "ptr \<Rightarrow> nat \<Rightarrow> nat \<Rightarrow> world \<Rightarrow> fault + world" where
  "print_first_ten_loop z n i s =
     (if i < 10 \<and> i < n then
        (case load (mem s) z i of
           Inl e \<Rightarrow> Inl e
         | Inr v \<Rightarrow> print_first_ten_loop z n (i + 1) (emit (FirstTenElem i v) s))
      else Inr s)"
  by pat_completeness auto
termination
  by (relation "measure (\<lambda>(z, n, i, s). n - i)") auto

declare print_first_ten_loop.simps [simp del]

definition print_first_ten :: "string \<Rightarrow> ptr \<Rightarrow> nat \<Rightarrow> world \<Rightarrow> fault + world" where
  "print_first_ten label z n s = print_first_ten_loop z n 0 (emit (FirstTenLabel label) s)"

text \<open>
  \<^verbatim>\<open>time_c\<close> and \<^verbatim>\<open>time_asm\<close> (lines 49 to 61). The difference of the two clock values is
  taken in \<^verbatim>\<open>clock_t\<close>, converted to \<^verbatim>\<open>double\<close> and divided by \<^verbatim>\<open>CLOCKS_PER_SEC\<close>. In
  \<^verbatim>\<open>time_asm\<close> the parameter \<open>A\<close> is passed by address, so it is a block of its own.
\<close>

definition time_c :: "env \<Rightarrow> ptr \<Rightarrow> ptr \<Rightarrow> ptr \<Rightarrow> double \<Rightarrow> nat \<Rightarrow> world \<Rightarrow> fault + (double \<times> world)" where
  "time_c E z x y A n s =
     (let (start, s1) = clock E s
      in andthen (call_daxpy_c z x y A n s1) (\<lambda>s2.
           let (stop, s3) = clock E s2
           in Inr (ddiv (double_of_int (stop - start)) (double_of_int (CLOCKS_PER_SEC E)), s3)))"

definition time_asm :: "env \<Rightarrow> ptr \<Rightarrow> ptr \<Rightarrow> ptr \<Rightarrow> double \<Rightarrow> nat \<Rightarrow> world \<Rightarrow> fault + (double \<times> world)" where
  "time_asm E z x y A n s =
     (let (pA, s0) = new_block [A] s;
          (start, s1) = clock E s0
      in andthen (call_daxpy_asm E z x y pA n s1) (\<lambda>s2.
           let (stop, s3) = clock E s2
           in Inr (ddiv (double_of_int (stop - start)) (double_of_int (CLOCKS_PER_SEC E)),
                   end_block pA s3)))"

section \<open>The verification example\<close>

text \<open>\<^verbatim>\<open>verify_with_example\<close> (lines 64 to 101).\<close>

function show_process_loop :: "ptr \<Rightarrow> ptr \<Rightarrow> double \<Rightarrow> nat \<Rightarrow> nat \<Rightarrow> world \<Rightarrow> fault + world" where
  "show_process_loop x y A n i s =
     (if i < n then
        (case load (mem s) x i of
           Inl e \<Rightarrow> Inl e
         | Inr xi \<Rightarrow>
             (case load (mem s) y i of
                Inl e \<Rightarrow> Inl e
              | Inr yi \<Rightarrow>
                  show_process_loop x y A n (i + 1)
                    (emit (ShowProcess i A xi yi (dadd (dmul A xi) yi)) s)))
      else Inr s)"
  by pat_completeness auto
termination
  by (relation "measure (\<lambda>(x, y, A, n, i, s). n - i)") auto

declare show_process_loop.simps [simp del]

definition load3 :: "memory \<Rightarrow> ptr \<Rightarrow> fault + double list" where
  "load3 m p =
     andthen (load m p 0) (\<lambda>a. andthen (load m p 1) (\<lambda>b. andthen (load m p 2) (\<lambda>c. Inr [a, b, c])))"

definition verify_with_example :: "env \<Rightarrow> world \<Rightarrow> fault + world" where
  "verify_with_example E s =
     (let s0 = emit VerifyBanner s;
          A = dlit 2;
          n = 3;
          (pA, s1) = new_block [A] s0;
          (x, s2) = new_block [dlit 1, dlit 2, dlit 3] s1;
          (y, s3) = new_block [dlit 11, dlit 12, dlit 13] s2;
          (zC, s4) = new_block [dlit 0, dlit 0, dlit 0] s3;
          (zA, s5) = new_block [dlit 0, dlit 0, dlit 0] s4
      in andthen (load3 (mem s5) x) (\<lambda>xs.
         andthen (load3 (mem s5) y) (\<lambda>ys.
         andthen (show_process_loop x y A n 0 (emit (ShowInput A xs ys) s5)) (\<lambda>s6.
         andthen (call_daxpy_c zC x y A n s6) (\<lambda>s7.
         andthen (call_daxpy_asm E zA x y pA n s7) (\<lambda>s8.
         andthen (load3 (mem s8) zC) (\<lambda>zcs.
         andthen (load3 (mem s8) zA) (\<lambda>zas.
         andthen (check_correctness zC zA n (emit (ShowOutputAsm zas) (emit (ShowOutputC zcs) s8)))
           (\<lambda>(ok, s9).
              Inr (end_block zA (end_block zC (end_block y (end_block x (end_block pA
                     (emit (VerifyVerdict (ok \<noteq> 0)) s9)))))))))))))))"

section \<open>The runner and main\<close>

text \<open>
  The two loops of \<^verbatim>\<open>run_test\<close> (lines 126 and 127) are one loop, over the timed call
  \<open>f\<close>: \<open>acc\<close> is \<^verbatim>\<open>sumC\<close> or \<^verbatim>\<open>sumA\<close>.
\<close>

function timed_runs :: "(world \<Rightarrow> fault + (double \<times> world)) \<Rightarrow> int \<Rightarrow> double \<Rightarrow> world \<Rightarrow> fault + (double \<times> world)" where
  "timed_runs f i acc s =
     (if i < RUNS then
        (case f s of
           Inl e \<Rightarrow> Inl e
         | Inr (t, s') \<Rightarrow> timed_runs f (i + 1) (dadd acc t) s')
      else Inr (acc, s))"
  by pat_completeness auto
termination
  by (relation "measure (\<lambda>(f, i, acc, s). nat (RUNS - i))") auto

declare timed_runs.simps [simp del]

text \<open>
  \<^verbatim>\<open>run_test\<close> (lines 104 to 146). The byte count \<^verbatim>\<open>n * sizeof(double)\<close> is a \<^verbatim>\<open>size_t\<close>
  product, so it wraps modulo \<open>2 ^ 64\<close>.
\<close>

definition run_test :: "env \<Rightarrow> nat \<Rightarrow> world \<Rightarrow> fault + world" where
  "run_test E n s =
     (let s0 = emit (SizeBanner n) s;
          A = dlit 2;
          (x, s1) = malloc E ((n * 8) mod 2 ^ 64) s0;
          (y, s2) = malloc E ((n * 8) mod 2 ^ 64) s1;
          (zC, s3) = malloc E ((n * 8) mod 2 ^ 64) s2;
          (zA, s4) = malloc E ((n * 8) mod 2 ^ 64) s3
      in if x = Null \<or> y = Null \<or> zC = Null \<or> zA = Null then
           andthen (free x (emit AllocFailed s4)) (\<lambda>s5.
           andthen (free y s5) (\<lambda>s6.
           andthen (free zC s6) (\<lambda>s7.
           free zA s7)))
         else
           andthen (init_data (mem s4) x y n) (\<lambda>m.
           andthen (timed_runs (time_c E zC x y A n) 0 (double_of_int 0) (s4\<lparr>mem := m\<rparr>)) (\<lambda>(sumC, s5).
           andthen (timed_runs (time_asm E zA x y A n) 0 (double_of_int 0) s5) (\<lambda>(sumA, s6).
           let avgC = ddiv sumC (double_of_int RUNS);
               avgA = ddiv sumA (double_of_int RUNS)
           in andthen (check_correctness zC zA n s6) (\<lambda>(ok, s7).
              andthen (print_first_ten ''C version result'' zC n (emit (BenchVerdict (ok \<noteq> 0)) s7)) (\<lambda>s8.
              andthen (print_first_ten ''x86-64 ASM version result'' zA n s8) (\<lambda>s9.
              andthen (free x (emit (AvgTimes avgC avgA) s9)) (\<lambda>s10.
              andthen (free y s10) (\<lambda>s11.
              andthen (free zC s11) (\<lambda>s12.
              free zA s12))))))))))"

text \<open>\<^verbatim>\<open>main\<close> (lines 149 to 168): the result is the exit status.\<close>

definition main :: "env \<Rightarrow> world \<Rightarrow> fault + (int \<times> world)" where
  "main E s =
     andthen (verify_with_example E s) (\<lambda>s1.
       let n1 = 2 ^ 20; n2 = 2 ^ 24; n3 = 2 ^ 28
       in andthen (run_test E n1 s1) (\<lambda>s2.
          andthen (run_test E n2 s2) (\<lambda>s3.
          andthen (run_test E n3 s3) (\<lambda>s4.
          Inr (0, emit AllDone s4)))))"

section \<open>Notions of the statements\<close>

text \<open>Block numbers are fresh: every live block has a number below the next one.\<close>

definition fresh :: "world \<Rightarrow> bool" where
  "fresh s = (\<forall>b. mem s b \<noteq> None \<longrightarrow> b < blocks s)"

text \<open>
  What the statements about the driver ask of the routine linked as \<^verbatim>\<open>daxpy_asm\<close>: called
  on three live buffers of \<open>n\<close> cells and a scalar cell, all in different blocks, it
  returns, and it changes nothing but the contents of the output buffer. The values it
  writes are left open, so that a kernel with wrong results is covered.
\<close>

definition kernel_ok :: "(memory \<Rightarrow> ptr \<Rightarrow> ptr \<Rightarrow> ptr \<Rightarrow> ptr \<Rightarrow> nat \<Rightarrow> fault + memory) \<Rightarrow> bool" where
  "kernel_ok K =
     (\<forall>m zb xb yb ab zs xs ys A n.
        m zb = Some zs \<and> m xb = Some xs \<and> m yb = Some ys \<and> m ab = Some [A] \<and>
        length zs = n \<and> length xs = n \<and> length ys = n \<and> distinct [zb, xb, yb, ab] \<longrightarrow>
        (\<exists>zs'. length zs' = n \<and>
           K m (Ptr zb 0) (Ptr xb 0) (Ptr yb 0) (Ptr ab 0) n = Inr (m(zb \<mapsto> zs'))))"

text \<open>
  The part of \<^verbatim>\<open>run_test\<close> that follows the allocation check (lines 123 to 145), as a
  function of the four buffers and the state: the proofs treat it apart from the
  allocations.
\<close>

definition run_test_body :: "env \<Rightarrow> nat \<Rightarrow> double \<Rightarrow> ptr \<Rightarrow> ptr \<Rightarrow> ptr \<Rightarrow> ptr \<Rightarrow> world \<Rightarrow> fault + world" where
  "run_test_body E n A x y zC zA s4 =
     andthen (init_data (mem s4) x y n) (\<lambda>m.
     andthen (timed_runs (time_c E zC x y A n) 0 (double_of_int 0) (s4\<lparr>mem := m\<rparr>)) (\<lambda>(sumC, s5).
     andthen (timed_runs (time_asm E zA x y A n) 0 (double_of_int 0) s5) (\<lambda>(sumA, s6).
     let avgC = ddiv sumC (double_of_int RUNS);
         avgA = ddiv sumA (double_of_int RUNS)
     in andthen (check_correctness zC zA n s6) (\<lambda>(ok, s7).
        andthen (print_first_ten ''C version result'' zC n (emit (BenchVerdict (ok \<noteq> 0)) s7)) (\<lambda>s8.
        andthen (print_first_ten ''x86-64 ASM version result'' zA n s8) (\<lambda>s9.
        andthen (free x (emit (AvgTimes avgC avgA) s9)) (\<lambda>s10.
        andthen (free y s10) (\<lambda>s11.
        andthen (free zC s11) (\<lambda>s12.
        free zA s12)))))))))"

text \<open>
  The part of \<^verbatim>\<open>verify_with_example\<close> that follows the declarations of the local
  variables (lines 77 to 100), as a function of their blocks and the state.
\<close>

definition verify_tail :: "env \<Rightarrow> double \<Rightarrow> nat \<Rightarrow> ptr \<Rightarrow> ptr \<Rightarrow> ptr \<Rightarrow> ptr \<Rightarrow> ptr \<Rightarrow> world \<Rightarrow> fault + world" where
  "verify_tail E A n pA x y zC zA s5 =
     andthen (load3 (mem s5) x) (\<lambda>xs.
     andthen (load3 (mem s5) y) (\<lambda>ys.
     andthen (show_process_loop x y A n 0 (emit (ShowInput A xs ys) s5)) (\<lambda>s6.
     andthen (call_daxpy_c zC x y A n s6) (\<lambda>s7.
     andthen (call_daxpy_asm E zA x y pA n s7) (\<lambda>s8.
     andthen (load3 (mem s8) zC) (\<lambda>zcs.
     andthen (load3 (mem s8) zA) (\<lambda>zas.
     andthen (check_correctness zC zA n (emit (ShowOutputAsm zas) (emit (ShowOutputC zcs) s8)))
       (\<lambda>(ok, s9).
          Inr (end_block zA (end_block zC (end_block y (end_block x (end_block pA
                 (emit (VerifyVerdict (ok \<noteq> 0)) s9))))))))))))))"

text \<open>One of the four calls of \<^verbatim>\<open>malloc\<close> from the \<open>k\<close>-th on fails.\<close>

definition alloc_fails :: "env \<Rightarrow> nat \<Rightarrow> bool" where
  "alloc_fails E k =
     (\<not> malloc_ok E k \<or> \<not> malloc_ok E (k + 1) \<or> \<not> malloc_ok E (k + 2) \<or> \<not> malloc_ok E (k + 3))"

text \<open>The duration that a timed call computes from the clock values \<open>k\<close> and \<open>k + 1\<close>.\<close>

definition duration :: "env \<Rightarrow> nat \<Rightarrow> double" where
  "duration E k =
     ddiv (double_of_int (clock_at E (k + 1) - clock_at E k)) (double_of_int (CLOCKS_PER_SEC E))"

text \<open>
  The events of thirty timed calls whose first call of \<^verbatim>\<open>clock\<close> is the \<open>c\<close>-th: each call
  \<open>call j\<close> stands between two clock reads. \<open>sum_durations\<close> is the sum of their durations
  as the loop accumulates it, from zero, in \<^verbatim>\<open>double\<close> arithmetic.
\<close>

definition timing_events :: "env \<Rightarrow> nat \<Rightarrow> (nat \<Rightarrow> event) \<Rightarrow> event list" where
  "timing_events E c call =
     concat (map (\<lambda>j. [ClockRead (clock_at E (c + 2 * j)), call j,
                        ClockRead (clock_at E (c + 2 * j + 1))]) [0..<30])"

definition sum_durations :: "env \<Rightarrow> nat \<Rightarrow> double" where
  "sum_durations E c = foldl dadd (double_of_int 0) (map (\<lambda>j. duration E (c + 2 * j)) [0..<30])"

text \<open>The values that \<^verbatim>\<open>init_data\<close> stores, and the result of the kernel on two vectors.\<close>

definition x_data :: "nat \<Rightarrow> double list" where
  "x_data n = map (\<lambda>i. dmul (double_of_int (int (i mod 1000))) (dlit (1 / 1000))) [0..<n]"

definition y_data :: "nat \<Rightarrow> double list" where
  "y_data n = map (\<lambda>i. dmul (double_of_int (int ((i * 7) mod 1000))) (dlit (2 / 1000))) [0..<n]"

definition axpy :: "double \<Rightarrow> double list \<Rightarrow> double list \<Rightarrow> double list" where
  "axpy A xs ys = map2 (\<lambda>a b. dadd (dmul A a) b) xs ys"

text \<open>
  The events of the trace by phase: the banners that open the verification, open a
  benchmark size and close the run; the events that only the verification prints; the
  events that only a benchmark run prints or does. A reported mismatch and a kernel call
  occur in both phases.
\<close>

fun is_banner :: "event \<Rightarrow> bool" where
  "is_banner VerifyBanner = True"
| "is_banner (SizeBanner n) = True"
| "is_banner AllDone = True"
| "is_banner e = False"

fun verify_only :: "event \<Rightarrow> bool" where
  "verify_only VerifyBanner = True"
| "verify_only (ShowInput A xs ys) = True"
| "verify_only (ShowProcess i A a b c) = True"
| "verify_only (ShowOutputC zs) = True"
| "verify_only (ShowOutputAsm zs) = True"
| "verify_only (VerifyVerdict ok) = True"
| "verify_only e = False"

fun bench_only :: "event \<Rightarrow> bool" where
  "bench_only (SizeBanner n) = True"
| "bench_only AllocFailed = True"
| "bench_only (BenchVerdict ok) = True"
| "bench_only (FirstTenLabel l) = True"
| "bench_only (FirstTenElem i v) = True"
| "bench_only (AvgTimes a b) = True"
| "bench_only (ClockRead t) = True"
| "bench_only e = False"

fun is_report :: "event \<Rightarrow> bool" where
  "is_report (Mismatch k r t d) = True"
| "is_report (BenchVerdict ok) = True"
| "is_report (FirstTenLabel l) = True"
| "is_report (FirstTenElem i v) = True"
| "is_report e = False"

fun is_call :: "event \<Rightarrow> bool" where
  "is_call (CallC z x y A n) = True"
| "is_call (CallAsm z x y pA n) = True"
| "is_call e = False"

text \<open>
  For the examples: an environment in which every allocation succeeds, the clock
  advances by seven ticks from call to call and the linked kernel is the one of the
  contract; and a kernel with wrong results, which fills the output buffer with zeros.
\<close>

definition example_env :: env where
  "example_env =
     \<lparr>malloc_ok = (\<lambda>k. True), garbage = (\<lambda>b i. NaN), clock_at = (\<lambda>k. 7 * int k),
      CLOCKS_PER_SEC = 1000, daxpy_asm = daxpy_asm_contract\<rparr>"

definition zero_kernel :: "memory \<Rightarrow> ptr \<Rightarrow> ptr \<Rightarrow> ptr \<Rightarrow> ptr \<Rightarrow> nat \<Rightarrow> fault + memory" where
  "zero_kernel m z x y pA n =
     (case z of
        Null \<Rightarrow> Inl NullDeref
      | Ptr b off \<Rightarrow>
          (case m b of
             None \<Rightarrow> Inl DeadBlock
           | Some vs \<Rightarrow> Inr (m(b \<mapsto> replicate (length vs) (dlit 0)))))"

section \<open>Properties of the reference kernel\<close>

lemma store_ok:
  assumes "load m p i = Inr w"
  shows "\<exists>m'. store m p i v = Inr m' \<and> load m' p i = Inr v \<and>
           (\<forall>q k. elem q k \<noteq> elem p i \<longrightarrow> load m' q k = load m q k)"
proof (cases p)
  case Null
  with assms show ?thesis by (simp add: load_def)
next
  case (Ptr b off)
  with assms obtain vs where vs: "m b = Some vs" "off + i < length vs"
    by (auto simp: load_def split: option.splits if_splits)
  let ?m = "m(b \<mapsto> vs[off + i := v])"
  have "store m p i v = Inr ?m" using Ptr vs by (simp add: store_def)
  moreover have "load ?m p i = Inr v" using Ptr vs by (simp add: load_def)
  moreover have "load ?m q k = load m q k" if "elem q k \<noteq> elem p i" for q k
    using that Ptr vs by (cases q) (auto simp: load_def)
  ultimately show ?thesis by blast
qed

lemma daxpy_c_loop_correct:
  assumes "\<forall>j. i \<le> j \<and> j < n \<longrightarrow> load m x j = Inr (X j)"
    and "\<forall>j. i \<le> j \<and> j < n \<longrightarrow> load m y j = Inr (Y j)"
    and "\<forall>j. i \<le> j \<and> j < n \<longrightarrow> (\<exists>v. load m z j = Inr v)"
    and "\<forall>j k. i \<le> j \<and> j < k \<and> k < n \<longrightarrow> elem z j \<noteq> elem x k \<and> elem z j \<noteq> elem y k"
  shows "\<exists>m'. daxpy_c_loop m z x y A n i = Inr m' \<and>
           (\<forall>j. i \<le> j \<and> j < n \<longrightarrow> load m' z j = Inr (dadd (dmul A (X j)) (Y j))) \<and>
           (\<forall>p k. (\<forall>j. i \<le> j \<and> j < n \<longrightarrow> elem p k \<noteq> elem z j) \<longrightarrow> load m' p k = load m p k)"
  using assms
proof (induction "n - i" arbitrary: i m)
  case 0
  then have "\<not> i < n" by simp
  then show ?case by (auto simp: daxpy_c_loop.simps)
next
  case (Suc d)
  then have lt: "i < n" by simp
  have lx: "load m x i = Inr (X i)" and ly: "load m y i = Inr (Y i)"
    using Suc.prems lt by auto
  obtain w where lz: "load m z i = Inr w" using Suc.prems(3) lt by auto
  let ?v = "dadd (dmul A (X i)) (Y i)"
  obtain m1 where m1: "store m z i ?v = Inr m1" "load m1 z i = Inr ?v"
    "\<And>q k. elem q k \<noteq> elem z i \<Longrightarrow> load m1 q k = load m q k"
    using store_ok[OF lz, of ?v] by blast
  have zne: "elem z j \<noteq> elem z i" if "i < j" for j
    using lz that by (cases z) (auto simp: load_def)
  have d: "d = n - (i + 1)" using Suc.hyps(2) by simp
  have p1: "\<forall>j. i + 1 \<le> j \<and> j < n \<longrightarrow> load m1 x j = Inr (X j)"
  proof (intro allI impI)
    fix j assume j: "i + 1 \<le> j \<and> j < n"
    then have "elem z i \<noteq> elem x j" using Suc.prems(4) by (metis Suc_eq_plus1 Suc_le_lessD order_refl)
    then show "load m1 x j = Inr (X j)" using m1(3)[of x j] Suc.prems(1) j by (metis Suc_eq_plus1 Suc_leD)
  qed
  have p2: "\<forall>j. i + 1 \<le> j \<and> j < n \<longrightarrow> load m1 y j = Inr (Y j)"
  proof (intro allI impI)
    fix j assume j: "i + 1 \<le> j \<and> j < n"
    then have "elem z i \<noteq> elem y j" using Suc.prems(4) by (metis Suc_eq_plus1 Suc_le_lessD order_refl)
    then show "load m1 y j = Inr (Y j)" using m1(3)[of y j] Suc.prems(2) j by (metis Suc_eq_plus1 Suc_leD)
  qed
  have p3: "\<forall>j. i + 1 \<le> j \<and> j < n \<longrightarrow> (\<exists>v. load m1 z j = Inr v)"
  proof (intro allI impI)
    fix j assume j: "i + 1 \<le> j \<and> j < n"
    then have "load m1 z j = load m z j" using m1(3)[of z j] zne[of j] by simp
    then show "\<exists>v. load m1 z j = Inr v" using Suc.prems(3) j by (metis Suc_eq_plus1 Suc_leD)
  qed
  have p4: "\<forall>j k. i + 1 \<le> j \<and> j < k \<and> k < n \<longrightarrow> elem z j \<noteq> elem x k \<and> elem z j \<noteq> elem y k"
    using Suc.prems(4) by (metis Suc_eq_plus1 Suc_leD)
  obtain m' where m': "daxpy_c_loop m1 z x y A n (i + 1) = Inr m'"
    "\<forall>j. i + 1 \<le> j \<and> j < n \<longrightarrow> load m' z j = Inr (dadd (dmul A (X j)) (Y j))"
    "\<forall>p k. (\<forall>j. i + 1 \<le> j \<and> j < n \<longrightarrow> elem p k \<noteq> elem z j) \<longrightarrow> load m' p k = load m1 p k"
    using Suc.hyps(1)[OF d p1 p2 p3 p4] by blast
  have run: "daxpy_c_loop m z x y A n i = Inr m'"
    using lt lx ly m1(1) m'(1) by (subst daxpy_c_loop.simps) simp
  have zi: "load m' z i = Inr ?v"
  proof -
    have "\<forall>j. i + 1 \<le> j \<and> j < n \<longrightarrow> elem z i \<noteq> elem z j"
      using zne by (metis Suc_eq_plus1 Suc_le_lessD)
    then have "load m' z i = load m1 z i" using m'(3) by blast
    then show ?thesis using m1(2) by simp
  qed
  have res: "\<forall>j. i \<le> j \<and> j < n \<longrightarrow> load m' z j = Inr (dadd (dmul A (X j)) (Y j))"
  proof (intro allI impI)
    fix j assume j: "i \<le> j \<and> j < n"
    show "load m' z j = Inr (dadd (dmul A (X j)) (Y j))"
    proof (cases "j = i")
      case True then show ?thesis using zi by simp
    next
      case False
      then have "i + 1 \<le> j" using j by simp
      then show ?thesis using m'(2) j by blast
    qed
  qed
  have frame: "\<forall>p k. (\<forall>j. i \<le> j \<and> j < n \<longrightarrow> elem p k \<noteq> elem z j) \<longrightarrow> load m' p k = load m p k"
  proof (intro allI impI)
    fix p k assume a: "\<forall>j. i \<le> j \<and> j < n \<longrightarrow> elem p k \<noteq> elem z j"
    then have "\<forall>j. i + 1 \<le> j \<and> j < n \<longrightarrow> elem p k \<noteq> elem z j" by (metis Suc_eq_plus1 Suc_leD)
    then have "load m' p k = load m1 p k" using m'(3) by blast
    moreover have "elem p k \<noteq> elem z i" using a lt by blast
    ultimately show "load m' p k = load m p k" using m1(3) by simp
  qed
  show ?case using run res frame by blast
qed


text \<open>
  Claim C1. Let \<open>x\<close> and \<open>y\<close> hold the vectors \<open>xs\<close> and \<open>ys\<close> of length \<open>n\<close>, let
  \<open>z\<close> point to \<open>n\<close> cells, and let no cell \<open>z[i]\<close> be a cell \<open>x[j]\<close> or \<open>y[j]\<close> that
  is read later (\<open>i < j\<close>): the output may be a buffer of its own or one of the inputs,
  updated in place. Then \<^verbatim>\<open>daxpy_c\<close> returns, \<open>z[i]\<close> holds \<open>A * xs[i] + ys[i]\<close> (in
  \<^verbatim>\<open>double\<close> arithmetic) for every \<open>i < n\<close>, and every access to a cell that is not one
  of \<open>z[0]\<close>, ..., \<open>z[n - 1]\<close> gives what it gave before the call.
\<close>

theorem daxpy_c_writes_axpy:
  assumes "length xs = n" and "length ys = n"
    and "\<forall>i<n. load m x i = Inr (xs ! i)"
    and "\<forall>i<n. load m y i = Inr (ys ! i)"
    and "\<forall>i<n. \<exists>v. load m z i = Inr v"
    and "\<forall>i<n. \<forall>j<n. i < j \<longrightarrow> elem z i \<noteq> elem x j \<and> elem z i \<noteq> elem y j"
  shows "\<exists>m'. daxpy_c m z x y A n = Inr m' \<and>
           (\<forall>i<n. load m' z i = Inr (dadd (dmul A (xs ! i)) (ys ! i))) \<and>
           (\<forall>p k. (\<forall>i<n. elem p k \<noteq> elem z i) \<longrightarrow> load m' p k = load m p k)"
  using daxpy_c_loop_correct[of 0 n m x "\<lambda>i. xs ! i" y "\<lambda>i. ys ! i" z A] assms
  unfolding daxpy_c_def by simp

theorem daxpy_c_writes_axpy_witness:
  "\<exists>m'. daxpy_c [0 \<mapsto> [dlit 1, dlit 2], 1 \<mapsto> [dlit 3, dlit 4], 2 \<mapsto> [dlit 0, dlit 0]]
           (Ptr 2 0) (Ptr 0 0) (Ptr 1 0) (dlit 2) 2 = Inr m' \<and>
        load m' (Ptr 2 0) 0 = Inr (dadd (dmul (dlit 2) (dlit 1)) (dlit 3)) \<and>
        load m' (Ptr 2 0) 1 = Inr (dadd (dmul (dlit 2) (dlit 2)) (dlit 4)) \<and>
        load m' (Ptr 0 0) 1 = Inr (dlit 2)"
proof -
  let ?m = "[0 \<mapsto> [dlit 1, dlit 2], 1 \<mapsto> [dlit 3, dlit 4], 2 \<mapsto> [dlit 0, dlit 0]] :: memory"
  have h1: "\<forall>i<2. load ?m (Ptr 0 0) i = Inr ([dlit 1, dlit 2] ! i)"
    by (simp add: load_def)
  have h2: "\<forall>i<2. load ?m (Ptr 1 0) i = Inr ([dlit 3, dlit 4] ! i)"
    by (simp add: load_def)
  have h3: "\<forall>i<2. \<exists>v. load ?m (Ptr 2 0) i = Inr v"
    by (simp add: load_def)
  have h4: "\<forall>i<2. \<forall>j<2. i < j \<longrightarrow>
      elem (Ptr 2 0) i \<noteq> elem (Ptr 0 0) j \<and> elem (Ptr 2 0) i \<noteq> elem (Ptr 1 0) j"
    by simp
  obtain m' where m': "daxpy_c ?m (Ptr 2 0) (Ptr 0 0) (Ptr 1 0) (dlit 2) 2 = Inr m'"
    "\<forall>i<2. load m' (Ptr 2 0) i = Inr (dadd (dmul (dlit 2) ([dlit 1, dlit 2] ! i)) ([dlit 3, dlit 4] ! i))"
    "\<forall>p k. (\<forall>i<2. elem p k \<noteq> elem (Ptr 2 0) i) \<longrightarrow> load m' p k = load ?m p k"
    using daxpy_c_writes_axpy[OF _ _ h1 h2 h3 h4, of "dlit 2"] by auto
  have "load m' (Ptr 0 0) 1 = load ?m (Ptr 0 0) 1" using m'(3) by simp
  then have "load m' (Ptr 0 0) 1 = Inr (dlit 2)" by (simp add: load_def)
  moreover have "load m' (Ptr 2 0) 0 = Inr (dadd (dmul (dlit 2) (dlit 1)) (dlit 3))"
    using m'(2) by force
  moreover have "load m' (Ptr 2 0) 1 = Inr (dadd (dmul (dlit 2) (dlit 2)) (dlit 4))"
    using m'(2) by force
  ultimately show ?thesis using m'(1) by blast
qed

lemma load_elem_cong: "elem p k = elem q j \<Longrightarrow> load m p k = load m q j"
  by (cases p; cases q) (auto simp: load_def split: option.splits)

lemma memory_eqI:
  assumes "\<And>p k. load m p k = load m' p k"
  shows "m = m'"
proof (rule ext)
  fix b
  have eq: "load m (Ptr b 0) k = load m' (Ptr b 0) k" for k by (rule assms)
  show "m b = m' b"
  proof (cases "m b")
    case None
    then show ?thesis using eq[of 0] by (auto simp: load_def split: option.splits if_splits)
  next
    case (Some vs)
    then obtain vs' where vs': "m' b = Some vs'"
      using eq[of 0] by (auto simp: load_def split: option.splits if_splits)
    have len: "length vs = length vs'"
    proof (rule ccontr)
      assume "length vs \<noteq> length vs'"
      then consider "length vs < length vs'" | "length vs' < length vs" by linarith
      then show False
      proof cases
        case 1
        then show False using eq[of "length vs"] Some vs' by (simp add: load_def)
      next
        case 2
        then show False using eq[of "length vs'"] Some vs' by (simp add: load_def)
      qed
    qed
    have "vs ! k = vs' ! k" if "k < length vs" for k
      using eq[of k] that len Some vs' by (simp add: load_def)
    then have "vs = vs'" using len by (simp add: list_eq_iff_nth_eq)
    then show ?thesis using Some vs' by simp
  qed
qed

lemma daxpy_c_separate:
  assumes x: "\<forall>i<n. load m x i = Inr (xs ! i)"
    and y: "\<forall>i<n. load m y i = Inr (ys ! i)"
    and z: "\<forall>i<n. \<exists>v. load m z i = Inr v"
    and sep: "\<forall>i<n. \<forall>j<n. elem z i \<noteq> elem x j \<and> elem z i \<noteq> elem y j"
  shows "\<exists>m'. daxpy_c m z x y A n = Inr m' \<and>
           (\<forall>i<n. load m' z i = Inr (dadd (dmul A (xs ! i)) (ys ! i))) \<and>
           (\<forall>i<n. load m' x i = Inr (xs ! i) \<and> load m' y i = Inr (ys ! i)) \<and>
           (\<forall>p k. (\<forall>i<n. elem p k \<noteq> elem z i) \<longrightarrow> load m' p k = load m p k) \<and>
           daxpy_c m' z x y A n = Inr m'"
proof -
  have run: "\<exists>m'. daxpy_c m0 z x y A n = Inr m' \<and>
           (\<forall>i<n. load m' z i = Inr (dadd (dmul A (xs ! i)) (ys ! i))) \<and>
           (\<forall>p k. (\<forall>i<n. elem p k \<noteq> elem z i) \<longrightarrow> load m' p k = load m0 p k)"
    if "\<forall>i<n. load m0 x i = Inr (xs ! i)" "\<forall>i<n. load m0 y i = Inr (ys ! i)"
       "\<forall>i<n. \<exists>v. load m0 z i = Inr v" for m0
    using daxpy_c_loop_correct[of 0 n m0 x "\<lambda>i. xs ! i" y "\<lambda>i. ys ! i" z A] that sep
    unfolding daxpy_c_def by simp
  obtain m' where m': "daxpy_c m z x y A n = Inr m'"
    "\<forall>i<n. load m' z i = Inr (dadd (dmul A (xs ! i)) (ys ! i))"
    "\<forall>p k. (\<forall>i<n. elem p k \<noteq> elem z i) \<longrightarrow> load m' p k = load m p k"
    using run[OF x y z] by blast
  have keep: "\<forall>i<n. load m' x i = Inr (xs ! i) \<and> load m' y i = Inr (ys ! i)"
  proof (intro allI impI)
    fix i assume i: "i < n"
    have "\<forall>j<n. elem x i \<noteq> elem z j" "\<forall>j<n. elem y i \<noteq> elem z j"
      using sep i by metis+
    then have "load m' x i = load m x i" "load m' y i = load m y i" using m'(3) by blast+
    then show "load m' x i = Inr (xs ! i) \<and> load m' y i = Inr (ys ! i)" using x y i by simp
  qed
  obtain m'' where m'': "daxpy_c m' z x y A n = Inr m''"
    "\<forall>i<n. load m'' z i = Inr (dadd (dmul A (xs ! i)) (ys ! i))"
    "\<forall>p k. (\<forall>i<n. elem p k \<noteq> elem z i) \<longrightarrow> load m'' p k = load m' p k"
    using run[of m'] keep m'(2) by blast
  have "load m'' p k = load m' p k" for p k
  proof (cases "\<forall>i<n. elem p k \<noteq> elem z i")
    case True
    then show ?thesis using m''(3) by blast
  next
    case False
    then obtain i where i: "i < n" "elem p k = elem z i" by blast
    have "load m'' p k = load m'' z i" "load m' p k = load m' z i"
      using i(2) by (rule load_elem_cong)+
    then show ?thesis using m'(2) m''(2) i(1) by simp
  qed
  then have "m'' = m'" by (rule memory_eqI)
  then show ?thesis using m' keep m''(1) by blast
qed

section \<open>Values of the double arithmetic\<close>

lemma floor_numeral_div: "\<lfloor>(numeral a :: rat) / numeral b\<rfloor> = numeral a div numeral b"
  using floor_divide_of_int_eq[of "numeral a" "numeral b", where ?'a = rat] by simp

lemma ceiling_numeral_div: "\<lceil>(numeral a :: rat) / numeral b\<rceil> = - ((- numeral a) div numeral b)"
  using floor_divide_of_int_eq[of "- numeral a" "numeral b", where ?'a = rat]
  by (simp add: ceiling_def)

lemmas round_eval = round_binary64_def ilog2_def bitlen.simps round_half_even_def Let_def dval_def

lemma EPS_value: "EPS = Finite False (4835703278458517 / 2 ^ 82)"
  by (simp add: EPS_def dlit_def round_eval floor_numeral_div ceiling_numeral_div)

lemma dlit_small:
  "dlit 0 = Finite False 0" "dlit 1 = Finite False 1" "dlit 2 = Finite False 2"
  "dlit 3 = Finite False 3" "dlit 4 = Finite False 4" "dlit 11 = Finite False 11" "dlit 12 = Finite False 12"
  "dlit 13 = Finite False 13" "dlit 15 = Finite False 15" "dlit 16 = Finite False 16"
  "dlit 17 = Finite False 17" "dlit 19 = Finite False 19"
  by (simp_all add: dlit_def round_eval)

section \<open>Properties of the correctness checker\<close>

lemma check_correctness_loop_result:
  assumes "\<forall>j. i \<le> j \<and> j < n \<longrightarrow> load (mem s) ref j = Inr (R j)"
    and "\<forall>j. i \<le> j \<and> j < n \<longrightarrow> load (mem s) test j = Inr (T j)"
  shows "(\<exists>k. i \<le> k \<and> k < n \<and> dgt (fabs (dsub (R k) (T k))) EPS \<and>
              (\<forall>j. i \<le> j \<and> j < k \<longrightarrow> \<not> dgt (fabs (dsub (R j) (T j))) EPS) \<and>
              check_correctness_loop ref test n i s =
                Inr (0, emit (Mismatch k (R k) (T k) (fabs (dsub (R k) (T k)))) s)) \<or>
         ((\<forall>j. i \<le> j \<and> j < n \<longrightarrow> \<not> dgt (fabs (dsub (R j) (T j))) EPS) \<and>
              check_correctness_loop ref test n i s = Inr (1, s))"
  using assms
proof (induction "n - i" arbitrary: i)
  case 0
  then have "\<not> i < n" by simp
  then show ?case by (auto simp: check_correctness_loop.simps)
next
  case (Suc d)
  then have lt: "i < n" by simp
  have lr: "load (mem s) ref i = Inr (R i)" and lt': "load (mem s) test i = Inr (T i)"
    using Suc.prems lt by auto
  show ?case
  proof (cases "dgt (fabs (dsub (R i) (T i))) EPS")
    case True
    then have "check_correctness_loop ref test n i s =
        Inr (0, emit (Mismatch i (R i) (T i) (fabs (dsub (R i) (T i)))) s)"
      using lt lr lt' by (subst check_correctness_loop.simps) (simp add: Let_def)
    then show ?thesis using True lt by (intro disjI1 exI[of _ i]) auto
  next
    case False
    have step: "check_correctness_loop ref test n i s = check_correctness_loop ref test n (i + 1) s"
      using lt lr lt' False by (subst check_correctness_loop.simps) (simp add: Let_def)
    have d: "d = n - (i + 1)" using Suc.hyps(2) by simp
    have p1: "\<forall>j. i + 1 \<le> j \<and> j < n \<longrightarrow> load (mem s) ref j = Inr (R j)"
      and p2: "\<forall>j. i + 1 \<le> j \<and> j < n \<longrightarrow> load (mem s) test j = Inr (T j)"
      using Suc.prems by auto
    have ext: "\<not> dgt (fabs (dsub (R j) (T j))) EPS"
      if "i \<le> j" and "\<forall>l. i + 1 \<le> l \<and> l < k \<longrightarrow> \<not> dgt (fabs (dsub (R l) (T l))) EPS" and "j < k" for j k
      using that False by (cases "j = i") auto
    from Suc.hyps(1)[OF d p1 p2] show ?thesis
    proof (elim disjE exE conjE)
      fix k
      assume k: "i + 1 \<le> k" "k < n" "dgt (fabs (dsub (R k) (T k))) EPS"
        "\<forall>j. i + 1 \<le> j \<and> j < k \<longrightarrow> \<not> dgt (fabs (dsub (R j) (T j))) EPS"
        "check_correctness_loop ref test n (i + 1) s =
           Inr (0, emit (Mismatch k (R k) (T k) (fabs (dsub (R k) (T k)))) s)"
      have "i \<le> k" using k(1) by simp
      moreover have "\<forall>j. i \<le> j \<and> j < k \<longrightarrow> \<not> dgt (fabs (dsub (R j) (T j))) EPS"
        using ext k(4) by blast
      ultimately show ?thesis using k(2,3,5) step by (intro disjI1 exI[of _ k]) simp
    next
      assume a: "\<forall>j. i + 1 \<le> j \<and> j < n \<longrightarrow> \<not> dgt (fabs (dsub (R j) (T j))) EPS"
        "check_correctness_loop ref test n (i + 1) s = Inr (1, s)"
      have "\<forall>j. i \<le> j \<and> j < n \<longrightarrow> \<not> dgt (fabs (dsub (R j) (T j))) EPS"
        using ext a(1) by blast
      then show ?thesis using a(2) step by simp
    qed
  qed
qed

lemma dle_iff_not_dgt: "x \<noteq> NaN \<Longrightarrow> y \<noteq> NaN \<Longrightarrow> dle x y \<longleftrightarrow> \<not> dgt x y"
  by (cases x; cases y) (auto simp: dval_def)

lemma diff_NaN: "fabs (dsub NaN t) = NaN" "fabs (dsub r NaN) = NaN"
  by (cases r; simp add: dsub_def)+

text \<open>
  Claim C2, as it is stated, fails where a difference is NaN: for \<open>ref = [NaN]\<close> and
  \<open>test = [1.0]\<close> the checker returns 1 and prints nothing, although the absolute
  difference is not at most \<open>EPS\<close>.
\<close>

theorem check_correctness_nan_counterexample:
  "check_correctness (Ptr 0 0) (Ptr 1 0) 1 (initial\<lparr>mem := [0 \<mapsto> [NaN], 1 \<mapsto> [dlit 1]]\<rparr>) =
     Inr (1, initial\<lparr>mem := [0 \<mapsto> [NaN], 1 \<mapsto> [dlit 1]]\<rparr>) \<and>
   \<not> dle (fabs (dsub NaN (dlit 1))) EPS"
  by (simp add: check_correctness_def check_correctness_loop.simps load_def dsub_def)

text \<open>
  Claim C2, amended. For vectors \<open>rs\<close> and \<open>ts\<close> of length \<open>n\<close>, \<^verbatim>\<open>check_correctness\<close>
  returns 1 if and only if no index has an absolute difference greater than \<open>EPS\<close> (a
  NaN difference is not greater), and then prints nothing; otherwise it returns 0 and
  prints the mismatch at the least index whose difference is greater than \<open>EPS\<close>. Where
  no difference is NaN, it returns 1 if and only if every absolute difference is at most
  \<open>EPS\<close>.
\<close>

theorem check_correctness_tolerance:
  assumes "length rs = n" and "length ts = n"
    and "\<forall>i<n. load (mem s) ref i = Inr (rs ! i)"
    and "\<forall>i<n. load (mem s) test i = Inr (ts ! i)"
  shows "\<exists>rv s'. check_correctness ref test n s = Inr (rv, s') \<and>
           (rv = 1 \<longleftrightarrow> (\<forall>i<n. \<not> dgt (fabs (dsub (rs ! i) (ts ! i))) EPS)) \<and>
           (rv = 1 \<longrightarrow> s' = s) \<and>
           (rv \<noteq> 1 \<longrightarrow> rv = 0 \<and>
              (\<exists>k<n. dgt (fabs (dsub (rs ! k) (ts ! k))) EPS \<and>
                 (\<forall>j<k. \<not> dgt (fabs (dsub (rs ! j) (ts ! j))) EPS) \<and>
                 s' = emit (Mismatch k (rs ! k) (ts ! k) (fabs (dsub (rs ! k) (ts ! k)))) s)) \<and>
           ((\<forall>i<n. fabs (dsub (rs ! i) (ts ! i)) \<noteq> NaN) \<longrightarrow>
              (rv = 1 \<longleftrightarrow> (\<forall>i<n. dle (fabs (dsub (rs ! i) (ts ! i))) EPS)))"
proof -
  let ?bad = "\<lambda>i. dgt (fabs (dsub (rs ! i) (ts ! i))) EPS"
  have le: "dle (fabs (dsub (rs ! i) (ts ! i))) EPS \<longleftrightarrow> \<not> ?bad i"
    if "fabs (dsub (rs ! i) (ts ! i)) \<noteq> NaN" for i
    using that by (simp add: dle_iff_not_dgt EPS_value)
  from check_correctness_loop_result[of 0 n s ref "\<lambda>i. rs ! i" test "\<lambda>i. ts ! i"] assms(3,4)
  consider k where "k < n" "?bad k" "\<forall>j<k. \<not> ?bad j"
      "check_correctness ref test n s =
         Inr (0, emit (Mismatch k (rs ! k) (ts ! k) (fabs (dsub (rs ! k) (ts ! k)))) s)"
    | "\<forall>j<n. \<not> ?bad j" "check_correctness ref test n s = Inr (1, s)"
    unfolding check_correctness_def by auto
  then show ?thesis
  proof cases
    case 1
    then show ?thesis using le by (intro exI[of _ 0] exI[of _ "emit (Mismatch k (rs ! k) (ts ! k) (fabs (dsub (rs ! k) (ts ! k)))) s"]) auto
  next
    case 2
    then show ?thesis using le by (intro exI[of _ 1] exI[of _ s]) auto
  qed
qed

theorem check_correctness_tolerance_witness:
  "check_correctness (Ptr 0 0) (Ptr 1 0) 2
     (initial\<lparr>mem := [0 \<mapsto> [dlit 1, dlit 1], 1 \<mapsto> [dlit 1, dlit 2]]\<rparr>) =
   Inr (0, emit (Mismatch 1 (dlit 1) (dlit 2) (fabs (dsub (dlit 1) (dlit 2))))
             (initial\<lparr>mem := [0 \<mapsto> [dlit 1, dlit 1], 1 \<mapsto> [dlit 1, dlit 2]]\<rparr>))"
proof -
  let ?s = "initial\<lparr>mem := [0 \<mapsto> [dlit 1, dlit 1], 1 \<mapsto> [dlit 1, dlit 2]]\<rparr>"
  let ?rs = "[dlit 1, dlit 1]" and ?ts = "[dlit 1, dlit 2]"
  let ?bad = "\<lambda>i. dgt (fabs (dsub (?rs ! i) (?ts ! i))) EPS"
  have h1: "\<forall>i<2. load (mem ?s) (Ptr 0 0) i = Inr (?rs ! i)" by (simp add: load_def)
  have h2: "\<forall>i<2. load (mem ?s) (Ptr 1 0) i = Inr (?ts ! i)" by (simp add: load_def)
  have b0: "\<not> ?bad 0" by (simp add: dlit_small dsub_def round_eval EPS_value)
  have b1: "?bad 1" by (simp add: dlit_small dsub_def round_eval EPS_value)
  obtain rv s' where r: "check_correctness (Ptr 0 0) (Ptr 1 0) 2 ?s = Inr (rv, s')"
    "rv = 1 \<longleftrightarrow> (\<forall>i<2. \<not> ?bad i)"
    "rv \<noteq> 1 \<longrightarrow> rv = 0 \<and> (\<exists>k<2. ?bad k \<and> (\<forall>j<k. \<not> ?bad j) \<and>
        s' = emit (Mismatch k (?rs ! k) (?ts ! k) (fabs (dsub (?rs ! k) (?ts ! k)))) ?s)"
    using check_correctness_tolerance[OF _ _ h1 h2] by auto
  have "\<not> (\<forall>i<2. \<not> ?bad i)" using b1 by (auto intro: exI[of _ 1])
  then have ne: "rv \<noteq> 1" using r(2) by blast
  then obtain k where k: "k < 2" "?bad k"
    "s' = emit (Mismatch k (?rs ! k) (?ts ! k) (fabs (dsub (?rs ! k) (?ts ! k)))) ?s"
    using r(3) by blast
  have "k = 1" using k(1,2) b0 by (cases "k = 0") auto
  then show ?thesis using r(1,3) ne k(3) by simp
qed

text \<open>
  Claim C9. If at every index one of the two values is NaN or the absolute difference
  is not greater than \<open>EPS\<close>, then \<^verbatim>\<open>check_correctness\<close> returns 1 and prints nothing:
  an index with a NaN is no mismatch.
\<close>

theorem check_correctness_ignores_nan:
  assumes "length rs = n" and "length ts = n"
    and "\<forall>i<n. load (mem s) ref i = Inr (rs ! i)"
    and "\<forall>i<n. load (mem s) test i = Inr (ts ! i)"
    and "\<forall>i<n. rs ! i = NaN \<or> ts ! i = NaN \<or> \<not> dgt (fabs (dsub (rs ! i) (ts ! i))) EPS"
  shows "check_correctness ref test n s = Inr (1, s)"
proof -
  have "\<not> dgt (fabs (dsub (rs ! i) (ts ! i))) EPS" if "i < n" for i
    using assms(5) that by (auto simp: diff_NaN)
  then show ?thesis
    using check_correctness_loop_result[of 0 n s ref "\<lambda>i. rs ! i" test "\<lambda>i. ts ! i"] assms(3,4)
    unfolding check_correctness_def by auto
qed

theorem check_correctness_ignores_nan_witness:
  "check_correctness (Ptr 0 0) (Ptr 1 0) 2
     (initial\<lparr>mem := [0 \<mapsto> [NaN, dlit 1], 1 \<mapsto> [dlit 2, dlit 1]]\<rparr>) =
   Inr (1, initial\<lparr>mem := [0 \<mapsto> [NaN, dlit 1], 1 \<mapsto> [dlit 2, dlit 1]]\<rparr>)"
proof -
  let ?s = "initial\<lparr>mem := [0 \<mapsto> [NaN, dlit 1], 1 \<mapsto> [dlit 2, dlit 1]]\<rparr>"
  let ?rs = "[NaN, dlit 1]" and ?ts = "[dlit 2, dlit 1]"
  have h1: "\<forall>i<2. load (mem ?s) (Ptr 0 0) i = Inr (?rs ! i)" by (simp add: load_def)
  have h2: "\<forall>i<2. load (mem ?s) (Ptr 1 0) i = Inr (?ts ! i)" by (simp add: load_def)
  have h3: "\<forall>i<2. ?rs ! i = NaN \<or> ?ts ! i = NaN \<or> \<not> dgt (fabs (dsub (?rs ! i) (?ts ! i))) EPS"
    by (simp add: less_2_cases_iff dlit_small dsub_def round_eval EPS_value)
  show ?thesis using check_correctness_ignores_nan[OF _ _ h1 h2 h3] by simp
qed

section \<open>Properties of the data initializer\<close>

lemma elem_inj: "load m p i = Inr v \<Longrightarrow> elem p j = elem p i \<longleftrightarrow> j = i"
  by (cases p) (auto simp: load_def)

lemma store_valid:
  assumes "store m p i v = Inr m'" and "load m q k = Inr u"
  shows "\<exists>u'. load m' q k = Inr u'"
  using assms by (cases p; cases q) (auto simp: load_def store_def split: option.splits if_splits)

lemma init_data_loop_correct:
  fixes XV YV :: "nat \<Rightarrow> double"
  defines "XV \<equiv> \<lambda>j. dmul (double_of_int (int (j mod 1000))) (dlit (1 / 1000))"
    and "YV \<equiv> \<lambda>j. dmul (double_of_int (int (((j * 7) mod 2 ^ 64) mod 1000))) (dlit (2 / 1000))"
  assumes "\<forall>j<n. \<exists>v. load m x j = Inr v"
    and "\<forall>j<n. \<exists>v. load m y j = Inr v"
    and sep: "\<forall>j<n. \<forall>k<n. elem x j \<noteq> elem y k"
  shows "\<exists>m'. init_data_loop m x y n i = Inr m' \<and>
           (\<forall>j. i \<le> j \<and> j < n \<longrightarrow> load m' x j = Inr (XV j) \<and> load m' y j = Inr (YV j)) \<and>
           (\<forall>p k. (\<forall>j. i \<le> j \<and> j < n \<longrightarrow> elem p k \<noteq> elem x j \<and> elem p k \<noteq> elem y j) \<longrightarrow>
                  load m' p k = load m p k)"
  using assms(3,4)
proof (induction "n - i" arbitrary: i m)
  case 0
  then have "\<not> i < n" by simp
  then show ?case by (auto simp: init_data_loop.simps)
next
  case (Suc d)
  then have lt: "i < n" by simp
  obtain wx where wx: "load m x i = Inr wx" using Suc.prems(1) lt by blast
  obtain m1 where m1: "store m x i (XV i) = Inr m1" "load m1 x i = Inr (XV i)"
    "\<And>q k. elem q k \<noteq> elem x i \<Longrightarrow> load m1 q k = load m q k"
    using store_ok[OF wx, of "XV i"] by blast
  have v1x: "\<forall>j<n. \<exists>v. load m1 x j = Inr v" and v1y: "\<forall>j<n. \<exists>v. load m1 y j = Inr v"
    using store_valid[OF m1(1)] Suc.prems by blast+
  obtain wy where wy: "load m1 y i = Inr wy" using v1y lt by blast
  obtain m2 where m2: "store m1 y i (YV i) = Inr m2" "load m2 y i = Inr (YV i)"
    "\<And>q k. elem q k \<noteq> elem y i \<Longrightarrow> load m2 q k = load m1 q k"
    using store_ok[OF wy, of "YV i"] by blast
  have v2x: "\<forall>j<n. \<exists>v. load m2 x j = Inr v" and v2y: "\<forall>j<n. \<exists>v. load m2 y j = Inr v"
    using store_valid[OF m2(1)] v1x v1y by blast+
  have d: "d = n - (i + 1)" using Suc.hyps(2) by simp
  obtain m' where m': "init_data_loop m2 x y n (i + 1) = Inr m'"
    "\<forall>j. i + 1 \<le> j \<and> j < n \<longrightarrow> load m' x j = Inr (XV j) \<and> load m' y j = Inr (YV j)"
    "\<forall>p k. (\<forall>j. i + 1 \<le> j \<and> j < n \<longrightarrow> elem p k \<noteq> elem x j \<and> elem p k \<noteq> elem y j) \<longrightarrow>
            load m' p k = load m2 p k"
    using Suc.hyps(1)[OF d v2x v2y] by blast
  have run: "init_data_loop m x y n i = Inr m'"
    using lt m1(1) m2(1) m'(1) by (subst init_data_loop.simps) (simp add: XV_def YV_def)
  have xne: "elem x i \<noteq> elem x j" if "i + 1 \<le> j" for j
    using elem_inj[OF wx, of j] that by auto
  have yne: "elem y i \<noteq> elem y j" if "i + 1 \<le> j" for j
    using elem_inj[OF wy, of j] that by auto
  have xy: "elem x j \<noteq> elem y k" if "j < n" "k < n" for j k
    using sep that by blast
  have xi: "load m' x i = Inr (XV i)"
  proof -
    have "\<forall>j. i + 1 \<le> j \<and> j < n \<longrightarrow> elem x i \<noteq> elem x j \<and> elem x i \<noteq> elem y j"
      using xne xy lt by blast
    then have "load m' x i = load m2 x i" using m'(3) by blast
    also have "\<dots> = load m1 x i" using m2(3)[of x i] xy[OF lt lt] by simp
    finally show ?thesis using m1(2) by simp
  qed
  have yi: "load m' y i = Inr (YV i)"
  proof -
    have "\<forall>j. i + 1 \<le> j \<and> j < n \<longrightarrow> elem y i \<noteq> elem x j \<and> elem y i \<noteq> elem y j"
      using yne xy lt by metis
    then have "load m' y i = load m2 y i" using m'(3) by blast
    then show ?thesis using m2(2) by simp
  qed
  have res: "\<forall>j. i \<le> j \<and> j < n \<longrightarrow> load m' x j = Inr (XV j) \<and> load m' y j = Inr (YV j)"
  proof (intro allI impI)
    fix j assume j: "i \<le> j \<and> j < n"
    show "load m' x j = Inr (XV j) \<and> load m' y j = Inr (YV j)"
    proof (cases "j = i")
      case True then show ?thesis using xi yi by simp
    next
      case False
      then have "i + 1 \<le> j" using j by simp
      then show ?thesis using m'(2) j by blast
    qed
  qed
  have frame: "\<forall>p k. (\<forall>j. i \<le> j \<and> j < n \<longrightarrow> elem p k \<noteq> elem x j \<and> elem p k \<noteq> elem y j) \<longrightarrow>
                  load m' p k = load m p k"
  proof (intro allI impI)
    fix p k assume a: "\<forall>j. i \<le> j \<and> j < n \<longrightarrow> elem p k \<noteq> elem x j \<and> elem p k \<noteq> elem y j"
    then have "\<forall>j. i + 1 \<le> j \<and> j < n \<longrightarrow> elem p k \<noteq> elem x j \<and> elem p k \<noteq> elem y j"
      by (metis Suc_eq_plus1 Suc_leD)
    then have "load m' p k = load m2 p k" using m'(3) by blast
    moreover have "elem p k \<noteq> elem x i" "elem p k \<noteq> elem y i" using a lt by blast+
    ultimately show "load m' p k = load m p k" using m1(3) m2(3) by simp
  qed
  show ?case using run res frame by blast
qed

text \<open>
  Claim C3. For buffers \<open>x\<close> and \<open>y\<close> of \<open>n\<close> cells that share no cell, with \<open>n\<close> doubles
  within the 64-bit address space (\<open>n * 8 < 2 ^ 64\<close>, so that \<^verbatim>\<open>i * 7\<close> does not wrap),
  \<^verbatim>\<open>init_data\<close> returns with \<open>x[i] = (i mod 1000) * 0.001\<close> and
  \<open>y[i] = ((i * 7) mod 1000) * 0.002\<close> for every \<open>i < n\<close>, the products taken in \<^verbatim>\<open>double\<close>
  arithmetic. A second call with the same \<open>n\<close>, on any memory and buffers, produces the
  same contents.
\<close>

theorem init_data_fills:
  assumes "n * 8 < 2 ^ 64"
    and "\<forall>i<n. \<exists>v. load m x i = Inr v" and "\<forall>i<n. \<exists>v. load m y i = Inr v"
    and "\<forall>i<n. \<forall>j<n. elem x i \<noteq> elem y j"
    and "\<forall>i<n. \<exists>v. load m2 x2 i = Inr v" and "\<forall>i<n. \<exists>v. load m2 y2 i = Inr v"
    and "\<forall>i<n. \<forall>j<n. elem x2 i \<noteq> elem y2 j"
  shows "\<exists>m' m2'. init_data m x y n = Inr m' \<and> init_data m2 x2 y2 n = Inr m2' \<and>
           (\<forall>i<n. load m' x i = Inr (dmul (double_of_int (int (i mod 1000))) (dlit (1 / 1000))) \<and>
                   load m' y i = Inr (dmul (double_of_int (int ((i * 7) mod 1000))) (dlit (2 / 1000)))) \<and>
           (\<forall>i<n. load m2' x2 i = load m' x i \<and> load m2' y2 i = load m' y i)"
proof -
  have wrap: "(i * 7) mod 2 ^ 64 = i * 7" if "i < n" for i
    using that assms(1) by simp
  obtain m' where m': "init_data m x y n = Inr m'"
    "\<forall>i<n. load m' x i = Inr (dmul (double_of_int (int (i mod 1000))) (dlit (1 / 1000))) \<and>
            load m' y i = Inr (dmul (double_of_int (int ((i * 7) mod 1000))) (dlit (2 / 1000)))"
    using init_data_loop_correct[OF assms(2,3,4), of 0] wrap unfolding init_data_def by auto
  obtain m2' where m2': "init_data m2 x2 y2 n = Inr m2'"
    "\<forall>i<n. load m2' x2 i = Inr (dmul (double_of_int (int (i mod 1000))) (dlit (1 / 1000))) \<and>
            load m2' y2 i = Inr (dmul (double_of_int (int ((i * 7) mod 1000))) (dlit (2 / 1000)))"
    using init_data_loop_correct[OF assms(5,6,7), of 0] wrap unfolding init_data_def by auto
  show ?thesis using m' m2' by auto
qed

theorem init_data_fills_witness:
  "\<exists>m' m2'. init_data [0 \<mapsto> [NaN, NaN], 1 \<mapsto> [NaN, NaN]] (Ptr 0 0) (Ptr 1 0) 2 = Inr m' \<and>
      init_data [4 \<mapsto> [dlit 0, dlit 0, dlit 0], 7 \<mapsto> [dlit 1, dlit 1]] (Ptr 4 1) (Ptr 7 0) 2 = Inr m2' \<and>
      load m' (Ptr 0 0) 1 = Inr (dmul (double_of_int 1) (dlit (1 / 1000))) \<and>
      load m' (Ptr 1 0) 1 = Inr (dmul (double_of_int 7) (dlit (2 / 1000))) \<and>
      load m2' (Ptr 4 1) 1 = load m' (Ptr 0 0) 1 \<and>
      load m2' (Ptr 7 0) 1 = load m' (Ptr 1 0) 1"
proof -
  let ?m = "[0 \<mapsto> [NaN, NaN], 1 \<mapsto> [NaN, NaN]] :: memory"
  let ?m2 = "[4 \<mapsto> [dlit 0, dlit 0, dlit 0], 7 \<mapsto> [dlit 1, dlit 1]] :: memory"
  have h0: "(2::nat) * 8 < 2 ^ 64" by simp
  have h1: "\<forall>i<2. \<exists>v. load ?m (Ptr 0 0) i = Inr v" by (simp add: load_def)
  have h2: "\<forall>i<2. \<exists>v. load ?m (Ptr 1 0) i = Inr v" by (simp add: load_def)
  have h3: "\<forall>i<2. \<forall>j<2. elem (Ptr 0 0) i \<noteq> elem (Ptr 1 0) j" by simp
  have h4: "\<forall>i<2. \<exists>v. load ?m2 (Ptr 4 1) i = Inr v" by (simp add: load_def)
  have h5: "\<forall>i<2. \<exists>v. load ?m2 (Ptr 7 0) i = Inr v" by (simp add: load_def)
  have h6: "\<forall>i<2. \<forall>j<2. elem (Ptr 4 1) i \<noteq> elem (Ptr 7 0) j" by simp
  obtain m' m2' where r: "init_data ?m (Ptr 0 0) (Ptr 1 0) 2 = Inr m'"
    "init_data ?m2 (Ptr 4 1) (Ptr 7 0) 2 = Inr m2'"
    "\<forall>i<2. load m' (Ptr 0 0) i = Inr (dmul (double_of_int (int (i mod 1000))) (dlit (1 / 1000))) \<and>
            load m' (Ptr 1 0) i = Inr (dmul (double_of_int (int ((i * 7) mod 1000))) (dlit (2 / 1000)))"
    "\<forall>i<2. load m2' (Ptr 4 1) i = load m' (Ptr 0 0) i \<and> load m2' (Ptr 7 0) i = load m' (Ptr 1 0) i"
    using init_data_fills[OF h0 h1 h2 h3 h4 h5 h6] by blast
  have "load m' (Ptr 0 0) 1 = Inr (dmul (double_of_int 1) (dlit (1 / 1000)))"
    "load m' (Ptr 1 0) 1 = Inr (dmul (double_of_int 7) (dlit (2 / 1000)))"
    using r(3) by force+
  moreover have "load m2' (Ptr 4 1) 1 = load m' (Ptr 0 0) 1" "load m2' (Ptr 7 0) 1 = load m' (Ptr 1 0) 1"
    using r(4) by force+
  ultimately show ?thesis using r(1,2) by blast
qed

section \<open>The literal example\<close>

text \<open>
  Claim C6, as it is stated, fails: on the literal example \<open>A = 2.0\<close>, \<open>X = [1, 2, 3]\<close>,
  \<open>Y = [11, 12, 13]\<close> the reference kernel produces \<open>[13, 16, 19]\<close>, which is not
  \<open>[15, 16, 17]\<close>.
\<close>

theorem example_output_counterexample:
  "(case daxpy_c [0 \<mapsto> [dlit 1, dlit 2, dlit 3], 1 \<mapsto> [dlit 11, dlit 12, dlit 13],
                  2 \<mapsto> [dlit 0, dlit 0, dlit 0]]
            (Ptr 2 0) (Ptr 0 0) (Ptr 1 0) (dlit 2) 3 of
      Inl e \<Rightarrow> None
    | Inr m' \<Rightarrow> m' 2) = Some [dlit 13, dlit 16, dlit 19] \<and>
   [dlit 13, dlit 16, dlit 19] \<noteq> [dlit 15, dlit 16, dlit 17]"
  by (simp add: daxpy_c_def daxpy_c_loop.simps load_def store_def dlit_small round_eval)

text \<open>
  Claim C6, amended. On the literal example the reference kernel produces
  \<open>Z = [13.0, 16.0, 19.0]\<close> exactly, and so does the optimized kernel under its contract;
  \<^verbatim>\<open>verify_with_example\<close> then prints these two outputs and the verdict of a match.
\<close>

theorem example_output:
  "(case daxpy_c [0 \<mapsto> [dlit 2], 1 \<mapsto> [dlit 1, dlit 2, dlit 3], 2 \<mapsto> [dlit 11, dlit 12, dlit 13],
                  3 \<mapsto> [dlit 0, dlit 0, dlit 0], 4 \<mapsto> [dlit 0, dlit 0, dlit 0]]
            (Ptr 3 0) (Ptr 1 0) (Ptr 2 0) (dlit 2) 3 of
      Inl e \<Rightarrow> None
    | Inr m' \<Rightarrow> m' 3) = Some [dlit 13, dlit 16, dlit 19] \<and>
   (case daxpy_asm_contract
            [0 \<mapsto> [dlit 2], 1 \<mapsto> [dlit 1, dlit 2, dlit 3], 2 \<mapsto> [dlit 11, dlit 12, dlit 13],
             3 \<mapsto> [dlit 0, dlit 0, dlit 0], 4 \<mapsto> [dlit 0, dlit 0, dlit 0]]
            (Ptr 4 0) (Ptr 1 0) (Ptr 2 0) (Ptr 0 0) 3 of
      Inl e \<Rightarrow> None
    | Inr m' \<Rightarrow> m' 4) = Some [dlit 13, dlit 16, dlit 19] \<and>
   (\<exists>s'. verify_with_example (E\<lparr>daxpy_asm := daxpy_asm_contract\<rparr>) s = Inr s' \<and>
        trace s' = trace s @
          [VerifyBanner,
           ShowInput (dlit 2) [dlit 1, dlit 2, dlit 3] [dlit 11, dlit 12, dlit 13],
           ShowProcess 0 (dlit 2) (dlit 1) (dlit 11) (dlit 13),
           ShowProcess 1 (dlit 2) (dlit 2) (dlit 12) (dlit 16),
           ShowProcess 2 (dlit 2) (dlit 3) (dlit 13) (dlit 19),
           CallC (Ptr (blocks s + 3) 0) (Ptr (blocks s + 1) 0) (Ptr (blocks s + 2) 0) (dlit 2) 3,
           CallAsm (Ptr (blocks s + 4) 0) (Ptr (blocks s + 1) 0) (Ptr (blocks s + 2) 0)
             (Ptr (blocks s) 0) 3,
           ShowOutputC [dlit 13, dlit 16, dlit 19],
           ShowOutputAsm [dlit 13, dlit 16, dlit 19],
           VerifyVerdict True])"
  by (simp add: verify_with_example_def new_block_def emit_def load3_def andthen_def
      show_process_loop.simps call_daxpy_c_def call_daxpy_asm_def daxpy_asm_contract_def
      daxpy_c_def daxpy_c_loop.simps check_correctness_def check_correctness_loop.simps
      load_def store_def round_eval dsub_def dlit_small EPS_value)

section \<open>The kernels on buffers and the timed loops\<close>

lemma load_block: "m b = Some vs \<Longrightarrow> k < length vs \<Longrightarrow> load m (Ptr b 0) k = Inr (vs ! k)"
  by (simp add: load_def)

lemma daxpy_c_buffers:
  assumes "m xb = Some xs" and "m yb = Some ys" and "m zb = Some zs"
    and "length xs = n" and "length ys = n" and "length zs = n"
    and "zb \<noteq> xb" and "zb \<noteq> yb"
  shows "daxpy_c m (Ptr zb 0) (Ptr xb 0) (Ptr yb 0) A n = Inr (m(zb \<mapsto> axpy A xs ys))"
proof -
  let ?Z = "axpy A xs ys"
  have lenZ: "length ?Z = n" using assms(4,5) by (simp add: axpy_def)
  have Zi: "?Z ! i = dadd (dmul A (xs ! i)) (ys ! i)" if "i < n" for i
    using that assms(4,5) by (simp add: axpy_def)
  have x: "\<forall>i<n. load m (Ptr xb 0) i = Inr (xs ! i)" using assms(1,4) by (simp add: load_block)
  have y: "\<forall>i<n. load m (Ptr yb 0) i = Inr (ys ! i)" using assms(2,5) by (simp add: load_block)
  have z: "\<forall>i<n. \<exists>v. load m (Ptr zb 0) i = Inr v" using assms(3,6) by (simp add: load_block)
  have sep: "\<forall>i<n. \<forall>j<n. elem (Ptr zb 0) i \<noteq> elem (Ptr xb 0) j \<and> elem (Ptr zb 0) i \<noteq> elem (Ptr yb 0) j"
    using assms(7,8) by simp
  obtain m' where m': "daxpy_c m (Ptr zb 0) (Ptr xb 0) (Ptr yb 0) A n = Inr m'"
    "\<forall>i<n. load m' (Ptr zb 0) i = Inr (dadd (dmul A (xs ! i)) (ys ! i))"
    "\<forall>p k. (\<forall>i<n. elem p k \<noteq> elem (Ptr zb 0) i) \<longrightarrow> load m' p k = load m p k"
    using daxpy_c_separate[OF x y z sep, of A] by blast
  have "load m' p k = load (m(zb \<mapsto> ?Z)) p k" for p k
  proof (cases "\<forall>i<n. elem p k \<noteq> elem (Ptr zb 0) i")
    case True
    then have "load m' p k = load m p k" using m'(3) by blast
    moreover have "load (m(zb \<mapsto> ?Z)) p k = load m p k"
    proof (cases p)
      case Null then show ?thesis by (simp add: load_def)
    next
      case (Ptr b off)
      then have "b \<noteq> zb \<or> n \<le> off + k" using True by (auto simp: not_less)
      then show ?thesis using Ptr assms(3,6) lenZ by (auto simp: load_def)
    qed
    ultimately show ?thesis by simp
  next
    case False
    then obtain i where i: "i < n" "elem p k = elem (Ptr zb 0) i" by blast
    have "load m' p k = load m' (Ptr zb 0) i" using i(2) by (rule load_elem_cong)
    moreover have "load (m(zb \<mapsto> ?Z)) p k = load (m(zb \<mapsto> ?Z)) (Ptr zb 0) i"
      using i(2) by (rule load_elem_cong)
    moreover have "load (m(zb \<mapsto> ?Z)) (Ptr zb 0) i = Inr (?Z ! i)"
      using i(1) lenZ by (simp add: load_def)
    ultimately show ?thesis using m'(2) i(1) Zi by simp
  qed
  then have "m' = m(zb \<mapsto> ?Z)" by (rule memory_eqI)
  then show ?thesis using m'(1) by simp
qed

lemma kernel_ok_contract: "kernel_ok daxpy_asm_contract"
  unfolding kernel_ok_def
proof (intro allI impI, elim conjE)
  fix m :: memory and zb xb yb ab :: nat and zs xs ys :: "double list" and A :: double and n :: nat
  assume a: "m zb = Some zs" "m xb = Some xs" "m yb = Some ys" "m ab = Some [A]"
    "length zs = n" "length xs = n" "length ys = n" "distinct [zb, xb, yb, ab]"
  have "daxpy_asm_contract m (Ptr zb 0) (Ptr xb 0) (Ptr yb 0) (Ptr ab 0) n =
      daxpy_c m (Ptr zb 0) (Ptr xb 0) (Ptr yb 0) A n"
    using a(4) by (simp add: daxpy_asm_contract_def load_def)
  also have "\<dots> = Inr (m(zb \<mapsto> axpy A xs ys))"
    using a by (intro daxpy_c_buffers) auto
  finally show "\<exists>zs'. length zs' = n \<and>
      daxpy_asm_contract m (Ptr zb 0) (Ptr xb 0) (Ptr yb 0) (Ptr ab 0) n = Inr (m(zb \<mapsto> zs'))"
    using a(6,7) by (intro exI[of _ "axpy A xs ys"]) (simp add: axpy_def)
qed

lemma init_data_buffers:
  assumes "m xb = Some xs" and "m yb = Some ys" and "length xs = n" and "length ys = n"
    and "xb \<noteq> yb" and "n * 8 < 2 ^ 64"
  shows "init_data m (Ptr xb 0) (Ptr yb 0) n = Inr (m(xb \<mapsto> x_data n, yb \<mapsto> y_data n))"
proof -
  let ?M = "m(xb \<mapsto> x_data n, yb \<mapsto> y_data n)"
  have wrap: "(i * 7) mod 2 ^ 64 = i * 7" if "i < n" for i
    using that assms(6) by simp
  have vx: "\<forall>i<n. \<exists>v. load m (Ptr xb 0) i = Inr v" using assms(1,3) by (simp add: load_block)
  have vy: "\<forall>i<n. \<exists>v. load m (Ptr yb 0) i = Inr v" using assms(2,4) by (simp add: load_block)
  have sep: "\<forall>i<n. \<forall>j<n. elem (Ptr xb 0) i \<noteq> elem (Ptr yb 0) j" using assms(5) by simp
  obtain m' where m': "init_data m (Ptr xb 0) (Ptr yb 0) n = Inr m'"
    "\<forall>i<n. load m' (Ptr xb 0) i = Inr (x_data n ! i) \<and> load m' (Ptr yb 0) i = Inr (y_data n ! i)"
    "\<forall>p k. (\<forall>j<n. elem p k \<noteq> elem (Ptr xb 0) j \<and> elem p k \<noteq> elem (Ptr yb 0) j) \<longrightarrow>
            load m' p k = load m p k"
    using init_data_loop_correct[OF vx vy sep, of 0] wrap
    unfolding init_data_def x_data_def y_data_def by auto
  have "load m' p k = load ?M p k" for p k
  proof (cases "\<forall>j<n. elem p k \<noteq> elem (Ptr xb 0) j \<and> elem p k \<noteq> elem (Ptr yb 0) j")
    case True
    then have "load m' p k = load m p k" using m'(3) by blast
    moreover have "load ?M p k = load m p k"
    proof (cases p)
      case Null then show ?thesis by (simp add: load_def)
    next
      case (Ptr b off)
      then have "(b \<noteq> xb \<and> b \<noteq> yb) \<or> n \<le> off + k" using True by (auto simp: not_less)
      then show ?thesis using Ptr assms(1-4) by (auto simp: load_def x_data_def y_data_def)
    qed
    ultimately show ?thesis by simp
  next
    case False
    then obtain j where j: "j < n" "elem p k = elem (Ptr xb 0) j \<or> elem p k = elem (Ptr yb 0) j"
      by blast
    from j(2) show ?thesis
    proof
      assume e: "elem p k = elem (Ptr xb 0) j"
      have "load m' p k = load m' (Ptr xb 0) j" "load ?M p k = load ?M (Ptr xb 0) j"
        using e by (rule load_elem_cong)+
      moreover have "load ?M (Ptr xb 0) j = Inr (x_data n ! j)"
        using j(1) assms(5) by (simp add: load_def x_data_def)
      ultimately show ?thesis using m'(2) j(1) by simp
    next
      assume e: "elem p k = elem (Ptr yb 0) j"
      have "load m' p k = load m' (Ptr yb 0) j" "load ?M p k = load ?M (Ptr yb 0) j"
        using e by (rule load_elem_cong)+
      moreover have "load ?M (Ptr yb 0) j = Inr (y_data n ! j)"
        using j(1) by (simp add: load_def y_data_def)
      ultimately show ?thesis using m'(2) j(1) by simp
    qed
  qed
  then have "m' = ?M" by (rule memory_eqI)
  then show ?thesis using m'(1) by simp
qed

lemma timed_runs_steps:
  assumes step: "\<And>j s. j < 30 \<Longrightarrow> P j s \<Longrightarrow> \<exists>s'. f s = Inr (T j, s') \<and> P (Suc j) s'"
    and "P j s" and "j \<le> 30"
  shows "\<exists>s'. timed_runs f (int j) acc s = Inr (foldl dadd acc (map T [j..<30]), s') \<and> P 30 s'"
  using assms(2,3)
proof (induction "30 - j" arbitrary: j s acc)
  case 0
  then have "j = 30" by simp
  then show ?case using "0.prems" by (simp add: timed_runs.simps RUNS_def)
next
  case (Suc d)
  then have lt: "j < 30" by simp
  obtain s1 where s1: "f s = Inr (T j, s1)" "P (Suc j) s1"
    using step[OF lt Suc.prems(1)] by blast
  have d: "d = 30 - Suc j" using Suc.hyps(2) by simp
  obtain s' where s': "timed_runs f (int (Suc j)) (dadd acc (T j)) s1 =
      Inr (foldl dadd (dadd acc (T j)) (map T [Suc j..<30]), s')" "P 30 s'"
    using Suc.hyps(1)[OF d s1(2), of "dadd acc (T j)"] lt by auto
  have "timed_runs f (int j) acc s = timed_runs f (int (Suc j)) (dadd acc (T j)) s1"
    using lt s1(1) by (subst timed_runs.simps) (simp add: RUNS_def add.commute)
  moreover have "foldl dadd (dadd acc (T j)) (map T [Suc j..<30]) = foldl dadd acc (map T [j..<30])"
    using lt by (simp add: upt_conv_Cons)
  ultimately show ?case using s' by auto
qed

lemma time_c_result:
  assumes "daxpy_c (mem s) z x y A n = Inr m'"
  shows "\<exists>s'. time_c E z x y A n s = Inr (duration E (clocks s), s') \<and>
           mem s' = m' \<and> blocks s' = blocks s \<and> mallocs s' = mallocs s \<and>
           clocks s' = clocks s + 2 \<and>
           trace s' = trace s @ [ClockRead (clock_at E (clocks s)), CallC z x y A n,
                                 ClockRead (clock_at E (clocks s + 1))]"
  using assms
  by (simp add: time_c_def clock_def call_daxpy_c_def andthen_def emit_def duration_def)

lemma timed_runs_c:
  assumes "daxpy_c (mem s) z x y A n = Inr m'" and "daxpy_c m' z x y A n = Inr m'"
  shows "\<exists>s'. timed_runs (time_c E z x y A n) 0 acc s =
             Inr (foldl dadd acc (map (\<lambda>j. duration E (clocks s + 2 * j)) [0..<30]), s') \<and>
           mem s' = m' \<and> blocks s' = blocks s \<and> mallocs s' = mallocs s \<and>
           clocks s' = clocks s + 60 \<and>
           trace s' = trace s @ concat (map (\<lambda>j. [ClockRead (clock_at E (clocks s + 2 * j)),
                                                 CallC z x y A n,
                                                 ClockRead (clock_at E (clocks s + 2 * j + 1))]) [0..<30])"
proof -
  let ?ev = "\<lambda>j. [ClockRead (clock_at E (clocks s + 2 * j)), CallC z x y A n,
                   ClockRead (clock_at E (clocks s + 2 * j + 1))]"
  let ?P = "\<lambda>j t. (if j = 0 then mem t = mem s else mem t = m') \<and> blocks t = blocks s \<and>
                   mallocs t = mallocs s \<and> clocks t = clocks s + 2 * j \<and>
                   trace t = trace s @ concat (map ?ev [0..<j])"
  have step: "\<exists>t'. time_c E z x y A n t = Inr (duration E (clocks s + 2 * j), t') \<and> ?P (Suc j) t'"
    if "j < 30" "?P j t" for j t
  proof -
    have "daxpy_c (mem t) z x y A n = Inr m'" using that(2) assms by (cases "j = 0") auto
    from time_c_result[OF this, of E] obtain t' where
      t': "time_c E z x y A n t = Inr (duration E (clocks t), t')"
        "mem t' = m'" "blocks t' = blocks t" "mallocs t' = mallocs t" "clocks t' = clocks t + 2"
        "trace t' = trace t @ [ClockRead (clock_at E (clocks t)), CallC z x y A n,
                               ClockRead (clock_at E (clocks t + 1))]"
      by blast
    have "trace t' = trace s @ concat (map ?ev [0..<Suc j])"
      using t'(6) that(2) by (simp add: add.assoc)
    then show ?thesis using t' that(2) by auto
  qed
  have P0: "?P 0 s" by simp
  obtain s' where s': "timed_runs (time_c E z x y A n) (int 0) acc s =
      Inr (foldl dadd acc (map (\<lambda>j. duration E (clocks s + 2 * j)) [0..<30]), s')" "?P 30 s'"
    using timed_runs_steps[where P = ?P and f = "time_c E z x y A n"
      and T = "\<lambda>j. duration E (clocks s + 2 * j)", OF step P0, of acc] by blast
  have "mem s' = m'" "blocks s' = blocks s" "mallocs s' = mallocs s" "clocks s' = clocks s + 60"
    "trace s' = trace s @ concat (map ?ev [0..<30])"
    using s'(2) by simp_all
  moreover have "timed_runs (time_c E z x y A n) 0 acc s =
      Inr (foldl dadd acc (map (\<lambda>j. duration E (clocks s + 2 * j)) [0..<30]), s')"
    using s'(1) by simp
  ultimately show ?thesis by blast
qed

lemma time_asm_result:
  assumes ok: "kernel_ok (daxpy_asm E)" and fr: "mem s (blocks s) = None"
    and "mem s zb = Some zs" and "mem s xb = Some xs" and "mem s yb = Some ys"
    and "length zs = n" and "length xs = n" and "length ys = n" and "distinct [zb, xb, yb]"
  shows "\<exists>s' zs'. time_asm E (Ptr zb 0) (Ptr xb 0) (Ptr yb 0) A n s = Inr (duration E (clocks s), s') \<and>
           length zs' = n \<and> mem s' = (mem s)(zb \<mapsto> zs') \<and> blocks s' = blocks s + 1 \<and>
           mallocs s' = mallocs s \<and> clocks s' = clocks s + 2 \<and>
           trace s' = trace s @ [ClockRead (clock_at E (clocks s)),
                                 CallAsm (Ptr zb 0) (Ptr xb 0) (Ptr yb 0) (Ptr (blocks s) 0) n,
                                 ClockRead (clock_at E (clocks s + 1))]"
proof -
  let ?b = "blocks s"
  let ?m1 = "(mem s)(?b \<mapsto> [A])"
  have ne: "?b \<noteq> zb" "?b \<noteq> xb" "?b \<noteq> yb" using fr assms(3-5) by auto
  have pre: "?m1 zb = Some zs \<and> ?m1 xb = Some xs \<and> ?m1 yb = Some ys \<and> ?m1 ?b = Some [A] \<and>
      length zs = n \<and> length xs = n \<and> length ys = n \<and> distinct [zb, xb, yb, ?b]"
    using assms(3-9) ne by auto
  obtain zs' where zs': "length zs' = n"
    "daxpy_asm E ?m1 (Ptr zb 0) (Ptr xb 0) (Ptr yb 0) (Ptr ?b 0) n = Inr (?m1(zb \<mapsto> zs'))"
    using ok pre unfolding kernel_ok_def by blast
  have restore: "(?m1(zb \<mapsto> zs'))(?b := None) = (mem s)(zb \<mapsto> zs')"
    using fr ne by (auto simp: fun_eq_iff)
  show ?thesis
    using zs' restore
    by (auto simp: time_asm_def new_block_def clock_def call_daxpy_asm_def andthen_def emit_def
        duration_def intro!: exI[of _ zs'])
qed

lemma timed_runs_asm:
  assumes ok: "kernel_ok (daxpy_asm E)" and fr: "fresh s"
    and "mem s zb = Some zs" and "mem s xb = Some xs" and "mem s yb = Some ys"
    and "length zs = n" and "length xs = n" and "length ys = n" and "distinct [zb, xb, yb]"
  shows "\<exists>s' zs'. timed_runs (time_asm E (Ptr zb 0) (Ptr xb 0) (Ptr yb 0) A n) 0 acc s =
             Inr (foldl dadd acc (map (\<lambda>j. duration E (clocks s + 2 * j)) [0..<30]), s') \<and>
           length zs' = n \<and> mem s' = (mem s)(zb \<mapsto> zs') \<and> blocks s' = blocks s + 30 \<and>
           mallocs s' = mallocs s \<and> clocks s' = clocks s + 60 \<and>
           trace s' = trace s @ concat (map (\<lambda>j. [ClockRead (clock_at E (clocks s + 2 * j)),
                CallAsm (Ptr zb 0) (Ptr xb 0) (Ptr yb 0) (Ptr (blocks s + j) 0) n,
                ClockRead (clock_at E (clocks s + 2 * j + 1))]) [0..<30])"
proof -
  let ?ev = "\<lambda>j. [ClockRead (clock_at E (clocks s + 2 * j)),
                   CallAsm (Ptr zb 0) (Ptr xb 0) (Ptr yb 0) (Ptr (blocks s + j) 0) n,
                   ClockRead (clock_at E (clocks s + 2 * j + 1))]"
  let ?P = "\<lambda>j t. (\<exists>w. length w = n \<and> mem t = (mem s)(zb \<mapsto> w)) \<and> blocks t = blocks s + j \<and>
                   mallocs t = mallocs s \<and> clocks t = clocks s + 2 * j \<and>
                   trace t = trace s @ concat (map ?ev [0..<j])"
  have step: "\<exists>t'. time_asm E (Ptr zb 0) (Ptr xb 0) (Ptr yb 0) A n t =
                 Inr (duration E (clocks s + 2 * j), t') \<and> ?P (Suc j) t'"
    if "j < 30" "?P j t" for j t
  proof -
    note Pj = that(2)
    obtain w where w: "length w = n" "mem t = (mem s)(zb \<mapsto> w)" using Pj by blast
    have zlt: "zb < blocks s" using fr assms(3) by (auto simp: fresh_def)
    have f: "mem t (blocks t) = None"
    proof -
      have "blocks t \<noteq> zb" using Pj zlt by simp
      moreover have "mem s (blocks t) = None" using fr Pj by (auto simp: fresh_def)
      ultimately show ?thesis using w(2) by simp
    qed
    have bufs: "mem t zb = Some w" "mem t xb = Some xs" "mem t yb = Some ys"
      using w(2) assms(4,5,9) by auto
    note lt = that(1)
    obtain t' zs' where t': "time_asm E (Ptr zb 0) (Ptr xb 0) (Ptr yb 0) A n t = Inr (duration E (clocks t), t')"
      "length zs' = n" "mem t' = (mem t)(zb \<mapsto> zs')" "blocks t' = blocks t + 1"
      "mallocs t' = mallocs t" "clocks t' = clocks t + 2"
      "trace t' = trace t @ [ClockRead (clock_at E (clocks t)),
                             CallAsm (Ptr zb 0) (Ptr xb 0) (Ptr yb 0) (Ptr (blocks t) 0) n,
                             ClockRead (clock_at E (clocks t + 1))]"
      using time_asm_result[OF ok f bufs w(1) assms(7,8,9), of A] by blast
    have "mem t' = (mem s)(zb \<mapsto> zs')" using t'(3) w(2) by simp
    moreover have "trace t' = trace s @ concat (map ?ev [0..<Suc j])"
      using t'(7) Pj by (simp add: add.assoc)
    ultimately show ?thesis using t' Pj by auto
  qed
  have "(mem s)(zb \<mapsto> zs) = mem s" using assms(3) by (auto simp: fun_eq_iff)
  then have P0: "?P 0 s" using assms(6) by (auto intro: exI[of _ zs])
  obtain s' where s': "timed_runs (time_asm E (Ptr zb 0) (Ptr xb 0) (Ptr yb 0) A n) (int 0) acc s =
      Inr (foldl dadd acc (map (\<lambda>j. duration E (clocks s + 2 * j)) [0..<30]), s')" "?P 30 s'"
    using timed_runs_steps[where P = ?P and f = "time_asm E (Ptr zb 0) (Ptr xb 0) (Ptr yb 0) A n"
      and T = "\<lambda>j. duration E (clocks s + 2 * j)", OF step P0, of acc] by blast
  obtain w where w: "length w = n" "mem s' = (mem s)(zb \<mapsto> w)" using s'(2) by blast
  have "blocks s' = blocks s + 30" "mallocs s' = mallocs s" "clocks s' = clocks s + 60"
    "trace s' = trace s @ concat (map ?ev [0..<30])"
    using s'(2) by simp_all
  moreover have "timed_runs (time_asm E (Ptr zb 0) (Ptr xb 0) (Ptr yb 0) A n) 0 acc s =
      Inr (foldl dadd acc (map (\<lambda>j. duration E (clocks s + 2 * j)) [0..<30]), s')"
    using s'(1) by simp
  ultimately show ?thesis using w by blast
qed

section \<open>The report helpers and the runner\<close>

lemma check_correctness_buffers:
  assumes "mem s rb = Some rs" and "mem s tb = Some ts" and "length rs = n" and "length ts = n"
  shows "\<exists>rv s' ev. check_correctness (Ptr rb 0) (Ptr tb 0) n s = Inr (rv, s') \<and>
           mem s' = mem s \<and> blocks s' = blocks s \<and> mallocs s' = mallocs s \<and>
           clocks s' = clocks s \<and> trace s' = trace s @ ev \<and>
           (\<forall>e\<in>set ev. \<exists>k r t d. e = Mismatch k r t d)"
proof -
  have r: "\<forall>j. 0 \<le> j \<and> j < n \<longrightarrow> load (mem s) (Ptr rb 0) j = Inr (rs ! j)"
    using assms(1,3) by (simp add: load_block)
  have t: "\<forall>j. 0 \<le> j \<and> j < n \<longrightarrow> load (mem s) (Ptr tb 0) j = Inr (ts ! j)"
    using assms(2,4) by (simp add: load_block)
  from check_correctness_loop_result[OF r t]
  consider k where "check_correctness (Ptr rb 0) (Ptr tb 0) n s =
        Inr (0, emit (Mismatch k (rs ! k) (ts ! k) (fabs (dsub (rs ! k) (ts ! k)))) s)"
    | "check_correctness (Ptr rb 0) (Ptr tb 0) n s = Inr (1, s)"
    unfolding check_correctness_def by blast
  then show ?thesis
  proof cases
    case 1
    then show ?thesis
      by (intro exI[of _ 0] exI[of _ "emit (Mismatch k (rs ! k) (ts ! k) (fabs (dsub (rs ! k) (ts ! k)))) s"]
          exI[of _ "[Mismatch k (rs ! k) (ts ! k) (fabs (dsub (rs ! k) (ts ! k)))]"])
        (simp add: emit_def)
  next
    case 2
    then show ?thesis by (intro exI[of _ 1] exI[of _ s] exI[of _ "[]"]) simp
  qed
qed

lemma print_first_ten_loop_buffers:
  assumes "mem s zb = Some zs" and "length zs = n"
  shows "\<exists>s' ev. print_first_ten_loop (Ptr zb 0) n i s = Inr s' \<and>
           mem s' = mem s \<and> blocks s' = blocks s \<and> mallocs s' = mallocs s \<and>
           clocks s' = clocks s \<and> trace s' = trace s @ ev \<and> (\<forall>e\<in>set ev. is_report e)"
  using assms(1)
proof (induction "n - i" arbitrary: i s)
  case 0
  then have "\<not> i < n" by simp
  then have "print_first_ten_loop (Ptr zb 0) n i s = Inr s"
    by (simp add: print_first_ten_loop.simps)
  then show ?case by (intro exI[of _ s] exI[of _ "[]"]) simp
next
  case (Suc d)
  then have lt: "i < n" by simp
  show ?case
  proof (cases "i < 10")
    case False
    then have "print_first_ten_loop (Ptr zb 0) n i s = Inr s"
      by (simp add: print_first_ten_loop.simps)
    then show ?thesis by (intro exI[of _ s] exI[of _ "[]"]) simp
  next
    case True
    let ?t = "emit (FirstTenElem i (zs ! i)) s"
    have ld: "load (mem s) (Ptr zb 0) i = Inr (zs ! i)"
      using Suc.prems lt assms(2) by (simp add: load_block)
    have step: "print_first_ten_loop (Ptr zb 0) n i s = print_first_ten_loop (Ptr zb 0) n (i + 1) ?t"
      using True lt ld by (subst print_first_ten_loop.simps) simp
    have d: "d = n - (i + 1)" using Suc.hyps(2) by simp
    have mt: "mem ?t zb = Some zs" using Suc.prems by (simp add: emit_def)
    obtain s' ev where s': "print_first_ten_loop (Ptr zb 0) n (i + 1) ?t = Inr s'"
      "mem s' = mem ?t" "blocks s' = blocks ?t" "mallocs s' = mallocs ?t" "clocks s' = clocks ?t"
      "trace s' = trace ?t @ ev" "\<forall>e\<in>set ev. is_report e"
      using Suc.hyps(1)[OF d mt] by blast
    show ?thesis
      using step s'
      by (intro exI[of _ s'] exI[of _ "FirstTenElem i (zs ! i) # ev"]) (simp add: emit_def)
  qed
qed

lemma print_first_ten_buffers:
  assumes "mem s zb = Some zs" and "length zs = n"
  shows "\<exists>s' ev. print_first_ten l (Ptr zb 0) n s = Inr s' \<and>
           mem s' = mem s \<and> blocks s' = blocks s \<and> mallocs s' = mallocs s \<and>
           clocks s' = clocks s \<and> trace s' = trace s @ ev \<and> (\<forall>e\<in>set ev. is_report e)"
proof -
  let ?t = "emit (FirstTenLabel l) s"
  have mt: "mem ?t zb = Some zs" using assms(1) by (simp add: emit_def)
  obtain s' ev where s': "print_first_ten_loop (Ptr zb 0) n 0 ?t = Inr s'"
    "mem s' = mem ?t" "blocks s' = blocks ?t" "mallocs s' = mallocs ?t" "clocks s' = clocks ?t"
    "trace s' = trace ?t @ ev" "\<forall>e\<in>set ev. is_report e"
    using print_first_ten_loop_buffers[OF mt assms(2), of 0] by blast
  show ?thesis
    using s'
    by (intro exI[of _ s'] exI[of _ "FirstTenLabel l # ev"])
      (simp add: print_first_ten_def emit_def)
qed

lemma run_test_alloc_failure:
  assumes "fresh s" and "alloc_fails E (mallocs s)"
  shows "\<exists>s'. run_test E n s = Inr s' \<and> mem s' = mem s \<and> blocks s \<le> blocks s' \<and>
           mallocs s' = mallocs s + 4 \<and> clocks s' = clocks s \<and>
           trace s' = trace s @ [SizeBanner n, AllocFailed]"
proof -
  have f: "mem s (blocks s) = None" "mem s (Suc (blocks s)) = None"
    "mem s (Suc (Suc (blocks s))) = None" "mem s (Suc (Suc (Suc (blocks s)))) = None"
    using assms(1) by (auto simp: fresh_def)
  have a: "\<not> malloc_ok E (mallocs s) \<or> \<not> malloc_ok E (Suc (mallocs s)) \<or>
      \<not> malloc_ok E (Suc (Suc (mallocs s))) \<or> \<not> malloc_ok E (Suc (Suc (Suc (mallocs s))))"
    using assms(2) by (simp add: alloc_fails_def numeral_2_eq_2 numeral_3_eq_3)
  show ?thesis
    using a f
    by (cases "malloc_ok E (mallocs s)"; cases "malloc_ok E (Suc (mallocs s))";
        cases "malloc_ok E (Suc (Suc (mallocs s)))"; cases "malloc_ok E (Suc (Suc (Suc (mallocs s))))")
      (auto simp: run_test_def malloc_def new_block_def emit_def free_def andthen_def Let_def
        fun_eq_iff)
qed

lemma run_test_unfold:
  "run_test E n s =
     (let s0 = emit (SizeBanner n) s;
          A = dlit 2;
          (x, s1) = malloc E ((n * 8) mod 2 ^ 64) s0;
          (y, s2) = malloc E ((n * 8) mod 2 ^ 64) s1;
          (zC, s3) = malloc E ((n * 8) mod 2 ^ 64) s2;
          (zA, s4) = malloc E ((n * 8) mod 2 ^ 64) s3
      in if x = Null \<or> y = Null \<or> zC = Null \<or> zA = Null then
           andthen (free x (emit AllocFailed s4)) (\<lambda>s5.
           andthen (free y s5) (\<lambda>s6.
           andthen (free zC s6) (\<lambda>s7.
           free zA s7)))
         else run_test_body E n A x y zC zA s4)"
  unfolding run_test_def run_test_body_def by (rule refl)

lemma run_test_body_result:
  assumes ok: "kernel_ok (daxpy_asm E)" and fr: "fresh t" and n: "n * 8 < 2 ^ 64"
    and bx: "mem t xb = Some gx" and bY: "mem t yb = Some gy"
    and bc: "mem t cb = Some gc" and ba: "mem t ab = Some ga"
    and len: "length gx = n" "length gy = n" "length gc = n" "length ga = n"
    and dist: "distinct [xb, yb, cb, ab]"
  shows "\<exists>s' rep. run_test_body E n A (Ptr xb 0) (Ptr yb 0) (Ptr cb 0) (Ptr ab 0) t = Inr s' \<and>
           mem s' = (mem t)(xb := None, yb := None, cb := None, ab := None) \<and>
           blocks s' = blocks t + 30 \<and> mallocs s' = mallocs t \<and> clocks s' = clocks t + 120 \<and>
           trace s' = trace t @
             timing_events E (clocks t) (\<lambda>j. CallC (Ptr cb 0) (Ptr xb 0) (Ptr yb 0) A n) @
             timing_events E (clocks t + 60)
               (\<lambda>j. CallAsm (Ptr ab 0) (Ptr xb 0) (Ptr yb 0) (Ptr (blocks t + j) 0) n) @
             rep @
             [AvgTimes (ddiv (sum_durations E (clocks t)) (double_of_int 30))
                       (ddiv (sum_durations E (clocks t + 60)) (double_of_int 30))] \<and>
           (\<forall>e\<in>set rep. is_report e)"
proof -
  let ?x = "Ptr xb 0" and ?y = "Ptr yb 0" and ?zC = "Ptr cb 0" and ?zA = "Ptr ab 0"
  let ?m5 = "(mem t)(xb \<mapsto> x_data n, yb \<mapsto> y_data n)"
  let ?Z = "axpy A (x_data n) (y_data n)"
  let ?m6 = "?m5(cb \<mapsto> ?Z)"
  let ?s5 = "t\<lparr>mem := ?m5\<rparr>"
  let ?TC = "timing_events E (clocks t) (\<lambda>j. CallC ?zC ?x ?y A n)"
  let ?TA = "timing_events E (clocks t + 60) (\<lambda>j. CallAsm ?zA ?x ?y (Ptr (blocks t + j) 0) n)"
  have ne: "xb \<noteq> yb" "cb \<noteq> xb" "cb \<noteq> yb" "ab \<noteq> xb" "ab \<noteq> yb" "ab \<noteq> cb"
    using dist by auto
  have lens: "length (x_data n) = n" "length (y_data n) = n" "length ?Z = n"
    by (simp_all add: x_data_def y_data_def axpy_def)
  have e1: "init_data (mem t) ?x ?y n = Inr ?m5"
    using init_data_buffers[OF bx bY len(1,2) ne(1) n] .
  have c1: "daxpy_c (mem ?s5) ?zC ?x ?y A n = Inr ?m6"
    using daxpy_c_buffers[where m = ?m5 and xb = xb and yb = yb and zb = cb
        and xs = "x_data n" and ys = "y_data n" and zs = gc and n = n and A = A] lens bc len(3) ne
    by simp
  have c2: "daxpy_c ?m6 ?zC ?x ?y A n = Inr ?m6"
    using daxpy_c_buffers[where m = ?m6 and xb = xb and yb = yb and zb = cb
        and xs = "x_data n" and ys = "y_data n" and zs = ?Z and n = n and A = A] lens ne
    by simp
  obtain s6 where s6: "timed_runs (time_c E ?zC ?x ?y A n) 0 (double_of_int 0) ?s5 =
      Inr (sum_durations E (clocks t), s6)"
    "mem s6 = ?m6" "blocks s6 = blocks t" "mallocs s6 = mallocs t" "clocks s6 = clocks t + 60"
    "trace s6 = trace t @ ?TC"
    using timed_runs_c[OF c1 c2, of E "double_of_int 0"]
    by (auto simp: sum_durations_def timing_events_def)
  have lt: "xb < blocks t" "yb < blocks t" "cb < blocks t"
    using fr bx bY bc by (auto simp: fresh_def)
  have fr6: "fresh s6"
    unfolding fresh_def
  proof (intro allI impI)
    fix b assume "mem s6 b \<noteq> None"
    then have "b = xb \<or> b = yb \<or> b = cb \<or> mem t b \<noteq> None"
      using s6(2) by (auto split: if_splits)
    then show "b < blocks s6" using lt fr s6(3) by (auto simp: fresh_def)
  qed
  have b6: "mem s6 ab = Some ga" "mem s6 xb = Some (x_data n)" "mem s6 yb = Some (y_data n)"
    "mem s6 cb = Some ?Z"
    using s6(2) ba ne by simp_all
  have d6: "distinct [ab, xb, yb]" using ne by simp
  obtain s7 W where s7: "timed_runs (time_asm E ?zA ?x ?y A n) 0 (double_of_int 0) s6 =
      Inr (sum_durations E (clocks t + 60), s7)"
    "length W = n" "mem s7 = (mem s6)(ab \<mapsto> W)" "blocks s7 = blocks t + 30"
    "mallocs s7 = mallocs t" "clocks s7 = clocks t + 120"
    "trace s7 = trace t @ ?TC @ ?TA"
    using timed_runs_asm[OF ok fr6 b6(1,2,3) len(4) lens(1,2) d6, of A "double_of_int 0"] s6(3,4,5,6)
    by (auto simp: sum_durations_def timing_events_def add.assoc)
  have b7: "mem s7 cb = Some ?Z" "mem s7 ab = Some W"
    using s7(3) s6(2) ne by simp_all
  obtain rv s8 ev8 where s8: "check_correctness ?zC ?zA n s7 = Inr (rv, s8)"
    "mem s8 = mem s7" "blocks s8 = blocks s7" "mallocs s8 = mallocs s7" "clocks s8 = clocks s7"
    "trace s8 = trace s7 @ ev8" "\<forall>e\<in>set ev8. \<exists>k r t d. e = Mismatch k r t d"
    using check_correctness_buffers[OF b7(1,2) lens(3) s7(2)] by blast
  let ?t8 = "emit (BenchVerdict (rv \<noteq> 0)) s8"
  have b8: "mem ?t8 cb = Some ?Z" "mem ?t8 ab = Some W"
    using b7 s8(2) by (simp_all add: emit_def)
  obtain s9 ev9 where s9: "print_first_ten ''C version result'' ?zC n ?t8 = Inr s9"
    "mem s9 = mem ?t8" "blocks s9 = blocks ?t8" "mallocs s9 = mallocs ?t8" "clocks s9 = clocks ?t8"
    "trace s9 = trace ?t8 @ ev9" "\<forall>e\<in>set ev9. is_report e"
    using print_first_ten_buffers[OF b8(1) lens(3)] by blast
  have b9: "mem s9 ab = Some W" using b8 s9(2) by simp
  obtain s10 ev10 where s10: "print_first_ten ''x86-64 ASM version result'' ?zA n s9 = Inr s10"
    "mem s10 = mem s9" "blocks s10 = blocks s9" "mallocs s10 = mallocs s9" "clocks s10 = clocks s9"
    "trace s10 = trace s9 @ ev10" "\<forall>e\<in>set ev10. is_report e"
    using print_first_ten_buffers[OF b9 s7(2)] by blast
  let ?avg = "AvgTimes (ddiv (sum_durations E (clocks t)) (double_of_int 30))
                       (ddiv (sum_durations E (clocks t + 60)) (double_of_int 30))"
  let ?t10 = "emit ?avg s10"
  let ?final = "?t10\<lparr>mem := (mem s10)(xb := None, yb := None, cb := None, ab := None)\<rparr>"
  have m10: "mem s10 = ?m6(ab \<mapsto> W)"
    using s10(2) s9(2) s8(2) s7(3) s6(2) by (simp add: emit_def)
  have frees: "andthen (free ?x ?t10) (\<lambda>s11. andthen (free ?y s11) (\<lambda>s12.
      andthen (free ?zC s12) (\<lambda>s13. free ?zA s13))) = Inr ?final"
    using m10 ne by (simp add: free_def andthen_def emit_def)
  have run: "run_test_body E n A ?x ?y ?zC ?zA t = Inr ?final"
    unfolding run_test_body_def
    using e1 s6(1) s7(1) s8(1) s9(1) s10(1) frees
    by (simp add: Let_def andthen_def RUNS_def)
  have memf: "mem ?final = (mem t)(xb := None, yb := None, cb := None, ab := None)"
    using m10 ne by (auto simp: fun_eq_iff emit_def)
  let ?rep = "ev8 @ BenchVerdict (rv \<noteq> 0) # ev9 @ ev10"
  have tr: "trace ?final = trace t @ ?TC @ ?TA @ ?rep @ [?avg]"
    using s10(6) s9(6) s8(6) s7(7) by (simp add: emit_def)
  have "\<forall>e\<in>set ev8. is_report e" using s8(7) by auto
  then have rep: "\<forall>e\<in>set ?rep. is_report e" using s9(7) s10(7) by auto
  have "blocks ?final = blocks t + 30" "mallocs ?final = mallocs t" "clocks ?final = clocks t + 120"
    using s10(3,4,5) s9(3,4,5) s8(3,4,5) s7(4,5,6) by (simp_all add: emit_def)
  then show ?thesis using run memf tr rep by blast
qed

lemma run_test_success:
  assumes ok: "kernel_ok (daxpy_asm E)" and fr: "fresh s" and n: "n * 8 < 2 ^ 64"
    and al: "\<not> alloc_fails E (mallocs s)"
  shows "\<exists>s' rep. run_test E n s = Inr s' \<and> mem s' = mem s \<and> blocks s' = blocks s + 34 \<and>
           mallocs s' = mallocs s + 4 \<and> clocks s' = clocks s + 120 \<and>
           trace s' = trace s @ SizeBanner n #
             timing_events E (clocks s)
               (\<lambda>j. CallC (Ptr (blocks s + 2) 0) (Ptr (blocks s) 0) (Ptr (blocks s + 1) 0) (dlit 2) n) @
             timing_events E (clocks s + 60)
               (\<lambda>j. CallAsm (Ptr (blocks s + 3) 0) (Ptr (blocks s) 0) (Ptr (blocks s + 1) 0)
                      (Ptr (blocks s + 4 + j) 0) n) @
             rep @
             [AvgTimes (ddiv (sum_durations E (clocks s)) (double_of_int 30))
                       (ddiv (sum_durations E (clocks s + 60)) (double_of_int 30))] \<and>
           (\<forall>e\<in>set rep. is_report e)"
proof -
  let ?b = "blocks s"
  let ?g = "\<lambda>k. map (garbage E (?b + k)) [0..<n]"
  let ?m4 = "(mem s)(?b \<mapsto> ?g 0, ?b + 1 \<mapsto> ?g 1, ?b + 2 \<mapsto> ?g 2, ?b + 3 \<mapsto> ?g 3)"
  have bytes: "n * 8 mod 2 ^ 64 div 8 = n" using n by simp
  have mk: "malloc_ok E (mallocs s)" "malloc_ok E (Suc (mallocs s))"
    "malloc_ok E (Suc (Suc (mallocs s)))" "malloc_ok E (Suc (Suc (Suc (mallocs s))))"
    using al by (simp_all add: alloc_fails_def numeral_2_eq_2 numeral_3_eq_3)
  have f: "mem s ?b = None" "mem s (?b + 1) = None" "mem s (?b + 2) = None" "mem s (?b + 3) = None"
    using fr by (auto simp: fresh_def)
  have "\<exists>s4. run_test E n s =
        run_test_body E n (dlit 2) (Ptr ?b 0) (Ptr (?b + 1) 0) (Ptr (?b + 2) 0) (Ptr (?b + 3) 0) s4 \<and>
      mem s4 = ?m4 \<and> blocks s4 = ?b + 4 \<and> mallocs s4 = mallocs s + 4 \<and> clocks s4 = clocks s \<and>
      trace s4 = trace s @ [SizeBanner n]"
    using mk bytes
    apply (simp add: run_test_unfold malloc_def new_block_def emit_def Let_def numeral_3_eq_3)
    apply (rule exI, rule conjI, rule refl)
    apply simp
    done
  then obtain s4 where pre: "run_test E n s =
        run_test_body E n (dlit 2) (Ptr ?b 0) (Ptr (?b + 1) 0) (Ptr (?b + 2) 0) (Ptr (?b + 3) 0) s4"
    and s4: "mem s4 = ?m4" "blocks s4 = ?b + 4" "mallocs s4 = mallocs s + 4" "clocks s4 = clocks s"
      "trace s4 = trace s @ [SizeBanner n]"
    by blast
  have fr4: "fresh s4" using fr s4(1,2) by (auto simp: fresh_def split: if_splits)
  have bufs: "mem s4 ?b = Some (?g 0)" "mem s4 (?b + 1) = Some (?g 1)"
    "mem s4 (?b + 2) = Some (?g 2)" "mem s4 (?b + 3) = Some (?g 3)"
    using s4(1) by simp_all
  have lens: "length (?g 0) = n" "length (?g 1) = n" "length (?g 2) = n" "length (?g 3) = n"
    by simp_all
  have dist: "distinct [?b, ?b + 1, ?b + 2, ?b + 3]" by simp
  obtain s' rep where s': "run_test_body E n (dlit 2) (Ptr ?b 0) (Ptr (?b + 1) 0) (Ptr (?b + 2) 0)
        (Ptr (?b + 3) 0) s4 = Inr s'"
    "mem s' = (mem s4)(?b := None, ?b + 1 := None, ?b + 2 := None, ?b + 3 := None)"
    "blocks s' = blocks s4 + 30" "mallocs s' = mallocs s4" "clocks s' = clocks s4 + 120"
    "trace s' = trace s4 @
       timing_events E (clocks s4) (\<lambda>j. CallC (Ptr (?b + 2) 0) (Ptr ?b 0) (Ptr (?b + 1) 0) (dlit 2) n) @
       timing_events E (clocks s4 + 60)
         (\<lambda>j. CallAsm (Ptr (?b + 3) 0) (Ptr ?b 0) (Ptr (?b + 1) 0) (Ptr (blocks s4 + j) 0) n) @
       rep @
       [AvgTimes (ddiv (sum_durations E (clocks s4)) (double_of_int 30))
                 (ddiv (sum_durations E (clocks s4 + 60)) (double_of_int 30))]"
    "\<forall>e\<in>set rep. is_report e"
    using run_test_body_result[OF ok fr4 n bufs lens dist, of "dlit 2"] by blast
  have "mem s' = mem s" using s'(2) s4(1) f by (auto simp: fun_eq_iff)
  moreover have "blocks s' = ?b + 34" "mallocs s' = mallocs s + 4" "clocks s' = clocks s + 120"
    using s'(3,4,5) s4 by simp_all
  moreover have "trace s' = trace s @ SizeBanner n #
       timing_events E (clocks s) (\<lambda>j. CallC (Ptr (?b + 2) 0) (Ptr ?b 0) (Ptr (?b + 1) 0) (dlit 2) n) @
       timing_events E (clocks s + 60)
         (\<lambda>j. CallAsm (Ptr (?b + 3) 0) (Ptr ?b 0) (Ptr (?b + 1) 0) (Ptr (?b + 4 + j) 0) n) @
       rep @
       [AvgTimes (ddiv (sum_durations E (clocks s)) (double_of_int 30))
                 (ddiv (sum_durations E (clocks s + 60)) (double_of_int 30))]"
    using s'(6) s4 by simp
  ultimately show ?thesis using pre s'(1,7) by auto
qed

lemma timing_events_cases:
  "e \<in> set (timing_events E c call) \<Longrightarrow> (\<exists>t. e = ClockRead t) \<or> (\<exists>j. e = call j)"
  by (auto simp: timing_events_def)

lemma is_report_phase: "is_report e \<Longrightarrow> \<not> is_banner e \<and> \<not> verify_only e"
  by (cases e) auto

lemma run_test_any:
  assumes ok: "kernel_ok (daxpy_asm E)" and fr: "fresh s" and n: "n * 8 < 2 ^ 64"
  shows "\<exists>s' ev. run_test E n s = Inr s' \<and> mem s' = mem s \<and> fresh s' \<and>
           mallocs s' = mallocs s + 4 \<and> trace s' = trace s @ SizeBanner n # ev \<and>
           (\<forall>e\<in>set ev. \<not> is_banner e \<and> \<not> verify_only e) \<and>
           (alloc_fails E (mallocs s) \<longrightarrow> ev = [AllocFailed])"
proof (cases "alloc_fails E (mallocs s)")
  case True
  obtain s' where s': "run_test E n s = Inr s'" "mem s' = mem s" "blocks s \<le> blocks s'"
    "mallocs s' = mallocs s + 4" "trace s' = trace s @ [SizeBanner n, AllocFailed]"
    using run_test_alloc_failure[OF fr True, of n] by blast
  have "fresh s'" using fr s'(2,3) by (auto simp: fresh_def)
  then show ?thesis using s' by (intro exI[of _ s'] exI[of _ "[AllocFailed]"]) simp
next
  case False
  obtain s' rep where s': "run_test E n s = Inr s'" "mem s' = mem s" "blocks s' = blocks s + 34"
    "mallocs s' = mallocs s + 4"
    "trace s' = trace s @ SizeBanner n #
       timing_events E (clocks s)
         (\<lambda>j. CallC (Ptr (blocks s + 2) 0) (Ptr (blocks s) 0) (Ptr (blocks s + 1) 0) (dlit 2) n) @
       timing_events E (clocks s + 60)
         (\<lambda>j. CallAsm (Ptr (blocks s + 3) 0) (Ptr (blocks s) 0) (Ptr (blocks s + 1) 0)
                (Ptr (blocks s + 4 + j) 0) n) @
       rep @
       [AvgTimes (ddiv (sum_durations E (clocks s)) (double_of_int 30))
                 (ddiv (sum_durations E (clocks s + 60)) (double_of_int 30))]"
    "\<forall>e\<in>set rep. is_report e"
    using run_test_success[OF ok fr n False] by blast
  let ?ev = "timing_events E (clocks s)
         (\<lambda>j. CallC (Ptr (blocks s + 2) 0) (Ptr (blocks s) 0) (Ptr (blocks s + 1) 0) (dlit 2) n) @
       timing_events E (clocks s + 60)
         (\<lambda>j. CallAsm (Ptr (blocks s + 3) 0) (Ptr (blocks s) 0) (Ptr (blocks s + 1) 0)
                (Ptr (blocks s + 4 + j) 0) n) @
       rep @
       [AvgTimes (ddiv (sum_durations E (clocks s)) (double_of_int 30))
                 (ddiv (sum_durations E (clocks s + 60)) (double_of_int 30))]"
  have "fresh s'" using fr s'(2,3) by (auto simp: fresh_def)
  moreover have "\<forall>e\<in>set ?ev. \<not> is_banner e \<and> \<not> verify_only e"
    using s'(6) is_report_phase by (auto dest!: timing_events_cases)
  ultimately show ?thesis using s' False by (intro exI[of _ s'] exI[of _ ?ev]) simp
qed

section \<open>The verification phase and main\<close>

lemma verify_unfold:
  "verify_with_example E s =
     (let s0 = emit VerifyBanner s;
          A = dlit 2;
          n = 3;
          (pA, s1) = new_block [A] s0;
          (x, s2) = new_block [dlit 1, dlit 2, dlit 3] s1;
          (y, s3) = new_block [dlit 11, dlit 12, dlit 13] s2;
          (zC, s4) = new_block [dlit 0, dlit 0, dlit 0] s3;
          (zA, s5) = new_block [dlit 0, dlit 0, dlit 0] s4
      in verify_tail E A n pA x y zC zA s5)"
  unfolding verify_with_example_def verify_tail_def by (rule refl)

lemma show_process_loop_buffers:
  assumes "mem s xb = Some xs" and "mem s yb = Some ys" and "length xs = n" and "length ys = n"
  shows "\<exists>s' ev. show_process_loop (Ptr xb 0) (Ptr yb 0) A n i s = Inr s' \<and>
           mem s' = mem s \<and> blocks s' = blocks s \<and> mallocs s' = mallocs s \<and>
           clocks s' = clocks s \<and> trace s' = trace s @ ev \<and>
           (\<forall>e\<in>set ev. \<not> is_banner e \<and> \<not> bench_only e)"
  using assms(1,2)
proof (induction "n - i" arbitrary: i s)
  case 0
  then have "\<not> i < n" by simp
  then have "show_process_loop (Ptr xb 0) (Ptr yb 0) A n i s = Inr s"
    by (simp add: show_process_loop.simps)
  then show ?case by (intro exI[of _ s] exI[of _ "[]"]) simp
next
  case (Suc d)
  then have lt: "i < n" by simp
  let ?e = "ShowProcess i A (xs ! i) (ys ! i) (dadd (dmul A (xs ! i)) (ys ! i))"
  let ?t = "emit ?e s"
  have ld: "load (mem s) (Ptr xb 0) i = Inr (xs ! i)" "load (mem s) (Ptr yb 0) i = Inr (ys ! i)"
    using Suc.prems lt assms(3,4) by (simp_all add: load_block)
  have step: "show_process_loop (Ptr xb 0) (Ptr yb 0) A n i s =
      show_process_loop (Ptr xb 0) (Ptr yb 0) A n (i + 1) ?t"
    using lt ld by (subst show_process_loop.simps) simp
  have d: "d = n - (i + 1)" using Suc.hyps(2) by simp
  have mt: "mem ?t xb = Some xs" "mem ?t yb = Some ys" using Suc.prems by (simp_all add: emit_def)
  obtain s' ev where s': "show_process_loop (Ptr xb 0) (Ptr yb 0) A n (i + 1) ?t = Inr s'"
    "mem s' = mem ?t" "blocks s' = blocks ?t" "mallocs s' = mallocs ?t" "clocks s' = clocks ?t"
    "trace s' = trace ?t @ ev" "\<forall>e\<in>set ev. \<not> is_banner e \<and> \<not> bench_only e"
    using Suc.hyps(1)[OF d mt] by blast
  show ?case
    using step s'
    by (intro exI[of _ s'] exI[of _ "?e # ev"]) (simp add: emit_def)
qed

lemma load3_block:
  "m b = Some vs \<Longrightarrow> length vs = 3 \<Longrightarrow> load3 m (Ptr b 0) = Inr [vs ! 0, vs ! 1, vs ! 2]"
  by (simp add: load3_def load_def andthen_def numeral_2_eq_2)

lemma verify_tail_result:
  assumes ok: "kernel_ok (daxpy_asm E)"
    and ba: "mem t ab = Some [A]" and bx: "mem t xb = Some xs" and bY: "mem t yb = Some ys"
    and bc: "mem t cb = Some zc" and bd: "mem t db = Some za"
    and len: "length xs = 3" "length ys = 3" "length zc = 3" "length za = 3"
    and dist: "distinct [ab, xb, yb, cb, db]"
  shows "\<exists>s' ev. verify_tail E A 3 (Ptr ab 0) (Ptr xb 0) (Ptr yb 0) (Ptr cb 0) (Ptr db 0) t = Inr s' \<and>
           mem s' = (mem t)(ab := None, xb := None, yb := None, cb := None, db := None) \<and>
           blocks s' = blocks t \<and> mallocs s' = mallocs t \<and> clocks s' = clocks t \<and>
           trace s' = trace t @ ev \<and> (\<forall>e\<in>set ev. \<not> is_banner e \<and> \<not> bench_only e)"
proof -
  let ?pA = "Ptr ab 0" and ?x = "Ptr xb 0" and ?y = "Ptr yb 0" and ?zC = "Ptr cb 0" and ?zA = "Ptr db 0"
  let ?xl = "[xs ! 0, xs ! 1, xs ! 2]" and ?yl = "[ys ! 0, ys ! 1, ys ! 2]"
  have ne: "ab \<noteq> xb" "ab \<noteq> yb" "ab \<noteq> cb" "ab \<noteq> db" "xb \<noteq> yb" "xb \<noteq> cb" "xb \<noteq> db"
    "yb \<noteq> cb" "yb \<noteq> db" "cb \<noteq> db"
    using dist by auto
  have l1: "load3 (mem t) ?x = Inr ?xl" "load3 (mem t) ?y = Inr ?yl"
    using load3_block bx bY len by simp_all
  let ?t5 = "emit (ShowInput A ?xl ?yl) t"
  have m5: "mem ?t5 xb = Some xs" "mem ?t5 yb = Some ys" using bx bY by (simp_all add: emit_def)
  obtain s6 ev6 where s6: "show_process_loop ?x ?y A 3 0 ?t5 = Inr s6"
    "mem s6 = mem ?t5" "blocks s6 = blocks ?t5" "mallocs s6 = mallocs ?t5" "clocks s6 = clocks ?t5"
    "trace s6 = trace ?t5 @ ev6" "\<forall>e\<in>set ev6. \<not> is_banner e \<and> \<not> bench_only e"
    using show_process_loop_buffers[OF m5 len(1,2), of A 0] by blast
  have m6: "mem s6 = mem t" using s6(2) by (simp add: emit_def)
  let ?Z = "axpy A xs ys"
  have lZ: "length ?Z = 3" using len by (simp add: axpy_def)
  have c: "daxpy_c (mem s6) ?zC ?x ?y A 3 = Inr ((mem t)(cb \<mapsto> ?Z))"
    using daxpy_c_buffers[OF bx bY bc len(1,2,3), of A] ne m6 by simp
  let ?s7 = "emit (CallC ?zC ?x ?y A 3) (s6\<lparr>mem := (mem t)(cb \<mapsto> ?Z)\<rparr>)"
  have e7: "call_daxpy_c ?zC ?x ?y A 3 s6 = Inr ?s7"
    using c by (simp add: call_daxpy_c_def andthen_def)
  let ?m7 = "(mem t)(cb \<mapsto> ?Z)"
  have pre: "?m7 db = Some za \<and> ?m7 xb = Some xs \<and> ?m7 yb = Some ys \<and> ?m7 ab = Some [A] \<and>
      length za = 3 \<and> length xs = 3 \<and> length ys = 3 \<and> distinct [db, xb, yb, ab]"
    using ba bx bY bd len ne by auto
  obtain W where W: "length W = 3"
    "daxpy_asm E ?m7 ?zA ?x ?y ?pA 3 = Inr (?m7(db \<mapsto> W))"
    using ok pre unfolding kernel_ok_def by blast
  let ?m8 = "?m7(db \<mapsto> W)"
  let ?s8 = "emit (CallAsm ?zA ?x ?y ?pA 3) (?s7\<lparr>mem := ?m8\<rparr>)"
  have e8: "call_daxpy_asm E ?zA ?x ?y ?pA 3 ?s7 = Inr ?s8"
    using W(2) by (simp add: call_daxpy_asm_def andthen_def emit_def)
  have m8: "mem ?s8 = ?m8" by (simp add: emit_def)
  let ?zl = "[?Z ! 0, ?Z ! 1, ?Z ! 2]" and ?wl = "[W ! 0, W ! 1, W ! 2]"
  have l8: "load3 (mem ?s8) ?zC = Inr ?zl" "load3 (mem ?s8) ?zA = Inr ?wl"
    using load3_block[of ?m8 cb ?Z] load3_block[of ?m8 db W] lZ W(1) ne m8 by simp_all
  let ?t8 = "emit (ShowOutputAsm ?wl) (emit (ShowOutputC ?zl) ?s8)"
  have b8: "mem ?t8 cb = Some ?Z" "mem ?t8 db = Some W" using ne by (simp_all add: emit_def)
  obtain rv s9 ev9 where s9: "check_correctness ?zC ?zA 3 ?t8 = Inr (rv, s9)"
    "mem s9 = mem ?t8" "blocks s9 = blocks ?t8" "mallocs s9 = mallocs ?t8" "clocks s9 = clocks ?t8"
    "trace s9 = trace ?t8 @ ev9" "\<forall>e\<in>set ev9. \<exists>k r t d. e = Mismatch k r t d"
    using check_correctness_buffers[OF b8 lZ W(1)] by blast
  let ?v = "emit (VerifyVerdict (rv \<noteq> 0)) s9"
  let ?final = "end_block ?zA (end_block ?zC (end_block ?y (end_block ?x (end_block ?pA ?v))))"
  have run: "verify_tail E A 3 ?pA ?x ?y ?zC ?zA t = Inr ?final"
    unfolding verify_tail_def
    using l1 s6(1) e7 e8 l8 s9(1)
    by (simp add: andthen_def)
  let ?ev = "ShowInput A ?xl ?yl # ev6 @ [CallC ?zC ?x ?y A 3, CallAsm ?zA ?x ?y ?pA 3,
      ShowOutputC ?zl, ShowOutputAsm ?wl] @ ev9 @ [VerifyVerdict (rv \<noteq> 0)]"
  have tr: "trace ?final = trace t @ ?ev"
    using s9(6) s6(6) by (simp add: emit_def)
  have "\<forall>e\<in>set ev9. \<not> is_banner e \<and> \<not> bench_only e" using s9(7) by auto
  then have evs: "\<forall>e\<in>set ?ev. \<not> is_banner e \<and> \<not> bench_only e" using s6(7) by auto
  have memf: "mem ?final = (mem t)(ab := None, xb := None, yb := None, cb := None, db := None)"
    using s9(2) ne by (auto simp: fun_eq_iff emit_def)
  have "blocks ?final = blocks t" "mallocs ?final = mallocs t" "clocks ?final = clocks t"
    using s9(3,4,5) s6(3,4,5) by (simp_all add: emit_def)
  then show ?thesis using run tr evs memf by blast
qed

lemma add_numeral_Suc:
  "b + 3 = Suc (Suc (Suc b))" "b + 4 = Suc (Suc (Suc (Suc b)))"
  "b + 5 = Suc (Suc (Suc (Suc (Suc b))))"
  by simp_all

lemma verify_result:
  assumes ok: "kernel_ok (daxpy_asm E)" and fr: "fresh s"
  shows "\<exists>s' ev. verify_with_example E s = Inr s' \<and> mem s' = mem s \<and> fresh s' \<and>
           mallocs s' = mallocs s \<and> clocks s' = clocks s \<and>
           trace s' = trace s @ VerifyBanner # ev \<and>
           (\<forall>e\<in>set ev. \<not> is_banner e \<and> \<not> bench_only e)"
proof -
  let ?b = "blocks s"
  let ?m5 = "(mem s)(?b \<mapsto> [dlit 2], ?b + 1 \<mapsto> [dlit 1, dlit 2, dlit 3],
      ?b + 2 \<mapsto> [dlit 11, dlit 12, dlit 13], ?b + 3 \<mapsto> [dlit 0, dlit 0, dlit 0],
      ?b + 4 \<mapsto> [dlit 0, dlit 0, dlit 0])"
  have f: "mem s ?b = None" "mem s (?b + 1) = None" "mem s (?b + 2) = None" "mem s (?b + 3) = None"
    "mem s (?b + 4) = None"
    using fr by (auto simp: fresh_def)
  have "\<exists>s5. verify_with_example E s =
        verify_tail E (dlit 2) 3 (Ptr ?b 0) (Ptr (?b + 1) 0) (Ptr (?b + 2) 0) (Ptr (?b + 3) 0)
          (Ptr (?b + 4) 0) s5 \<and>
      mem s5 = ?m5 \<and> blocks s5 = ?b + 5 \<and> mallocs s5 = mallocs s \<and> clocks s5 = clocks s \<and>
      trace s5 = trace s @ [VerifyBanner]"
    apply (simp add: verify_unfold new_block_def emit_def Let_def add_numeral_Suc)
    apply (rule exI, rule conjI, rule refl)
    apply simp
    done
  then obtain s5 where pre: "verify_with_example E s =
        verify_tail E (dlit 2) 3 (Ptr ?b 0) (Ptr (?b + 1) 0) (Ptr (?b + 2) 0) (Ptr (?b + 3) 0)
          (Ptr (?b + 4) 0) s5"
    and s5: "mem s5 = ?m5" "blocks s5 = ?b + 5" "mallocs s5 = mallocs s" "clocks s5 = clocks s"
      "trace s5 = trace s @ [VerifyBanner]"
    by blast
  have bufs: "mem s5 ?b = Some [dlit 2]" "mem s5 (?b + 1) = Some [dlit 1, dlit 2, dlit 3]"
    "mem s5 (?b + 2) = Some [dlit 11, dlit 12, dlit 13]"
    "mem s5 (?b + 3) = Some [dlit 0, dlit 0, dlit 0]" "mem s5 (?b + 4) = Some [dlit 0, dlit 0, dlit 0]"
    using s5(1) by simp_all
  have dist: "distinct [?b, ?b + 1, ?b + 2, ?b + 3, ?b + 4]" by simp
  obtain s' ev where s': "verify_tail E (dlit 2) 3 (Ptr ?b 0) (Ptr (?b + 1) 0) (Ptr (?b + 2) 0)
        (Ptr (?b + 3) 0) (Ptr (?b + 4) 0) s5 = Inr s'"
    "mem s' = (mem s5)(?b := None, ?b + 1 := None, ?b + 2 := None, ?b + 3 := None, ?b + 4 := None)"
    "blocks s' = blocks s5" "mallocs s' = mallocs s5" "clocks s' = clocks s5"
    "trace s' = trace s5 @ ev" "\<forall>e\<in>set ev. \<not> is_banner e \<and> \<not> bench_only e"
    using verify_tail_result[OF ok bufs _ _ _ _ dist] by auto
  have m: "mem s' = mem s" using s'(2) s5(1) f by (auto simp: fun_eq_iff)
  then have "fresh s'" using fr s'(3) s5(2) by (auto simp: fresh_def)
  then show ?thesis using pre s' s5 m by auto
qed

lemma main_runs:
  assumes ok: "kernel_ok (daxpy_asm E)" and fr: "fresh s"
  shows "\<exists>s' v r1 r2 r3. main E s = Inr (0, s') \<and> mem s' = mem s \<and>
           trace s' = trace s @ VerifyBanner # v @ SizeBanner (2 ^ 20) # r1 @
             SizeBanner (2 ^ 24) # r2 @ SizeBanner (2 ^ 28) # r3 @ [AllDone] \<and>
           (\<forall>e\<in>set v. \<not> is_banner e \<and> \<not> bench_only e) \<and>
           (\<forall>e\<in>set (r1 @ r2 @ r3). \<not> is_banner e \<and> \<not> verify_only e) \<and>
           (alloc_fails E (mallocs s) \<longrightarrow> r1 = [AllocFailed]) \<and>
           (alloc_fails E (mallocs s + 4) \<longrightarrow> r2 = [AllocFailed]) \<and>
           (alloc_fails E (mallocs s + 8) \<longrightarrow> r3 = [AllocFailed])"
proof -
  obtain s1 v where s1: "verify_with_example E s = Inr s1" "mem s1 = mem s" "fresh s1"
    "mallocs s1 = mallocs s" "trace s1 = trace s @ VerifyBanner # v"
    "\<forall>e\<in>set v. \<not> is_banner e \<and> \<not> bench_only e"
    using verify_result[OF ok fr] by blast
  have n1: "(2::nat) ^ 20 * 8 < 2 ^ 64" and n2: "(2::nat) ^ 24 * 8 < 2 ^ 64"
    and n3: "(2::nat) ^ 28 * 8 < 2 ^ 64"
    by simp_all
  obtain s2 r1 where s2: "run_test E (2 ^ 20) s1 = Inr s2" "mem s2 = mem s1" "fresh s2"
    "mallocs s2 = mallocs s1 + 4" "trace s2 = trace s1 @ SizeBanner (2 ^ 20) # r1"
    "\<forall>e\<in>set r1. \<not> is_banner e \<and> \<not> verify_only e"
    "alloc_fails E (mallocs s1) \<longrightarrow> r1 = [AllocFailed]"
    using run_test_any[OF ok s1(3) n1] by blast
  obtain s3 r2 where s3: "run_test E (2 ^ 24) s2 = Inr s3" "mem s3 = mem s2" "fresh s3"
    "mallocs s3 = mallocs s2 + 4" "trace s3 = trace s2 @ SizeBanner (2 ^ 24) # r2"
    "\<forall>e\<in>set r2. \<not> is_banner e \<and> \<not> verify_only e"
    "alloc_fails E (mallocs s2) \<longrightarrow> r2 = [AllocFailed]"
    using run_test_any[OF ok s2(3) n2] by blast
  obtain s4 r3 where s4: "run_test E (2 ^ 28) s3 = Inr s4" "mem s4 = mem s3" "fresh s4"
    "mallocs s4 = mallocs s3 + 4" "trace s4 = trace s3 @ SizeBanner (2 ^ 28) # r3"
    "\<forall>e\<in>set r3. \<not> is_banner e \<and> \<not> verify_only e"
    "alloc_fails E (mallocs s3) \<longrightarrow> r3 = [AllocFailed]"
    using run_test_any[OF ok s3(3) n3] by blast
  let ?final = "emit AllDone s4"
  have run: "main E s = Inr (0, ?final)"
    using s1(1) s2(1) s3(1) s4(1) by (simp add: main_def andthen_def Let_def)
  have "mem ?final = mem s" using s1(2) s2(2) s3(2) s4(2) by (simp add: emit_def)
  moreover have "trace ?final = trace s @ VerifyBanner # v @ SizeBanner (2 ^ 20) # r1 @
      SizeBanner (2 ^ 24) # r2 @ SizeBanner (2 ^ 28) # r3 @ [AllDone]"
    using s1(5) s2(5) s3(5) s4(5) by (simp add: emit_def)
  moreover have "\<forall>e\<in>set (r1 @ r2 @ r3). \<not> is_banner e \<and> \<not> verify_only e"
    using s2(6) s3(6) s4(6) by auto
  moreover have "alloc_fails E (mallocs s) \<longrightarrow> r1 = [AllocFailed]"
    "alloc_fails E (mallocs s + 4) \<longrightarrow> r2 = [AllocFailed]"
    "alloc_fails E (mallocs s + 8) \<longrightarrow> r3 = [AllocFailed]"
    using s2(7) s3(7) s4(7) s1(4) s2(4) s3(4) by (simp_all add: add.assoc)
  ultimately show ?thesis using run s1(6) by blast
qed

section \<open>The frame of the reference kernel\<close>

text \<open>
  Claim C10, as it is stated, fails when the output buffer is one of the inputs, which
  the kernel accepts: called in place with \<open>z = x = [1.0]\<close>, \<open>y = [11.0]\<close> and \<open>A = 2.0\<close>,
  it leaves \<open>13.0\<close> in \<open>x\<close>, and a second call on the same buffers leaves \<open>37.0\<close> in \<open>z\<close>.
\<close>

theorem daxpy_c_in_place_counterexample:
  "(case daxpy_c [0 \<mapsto> [dlit 1], 1 \<mapsto> [dlit 11]] (Ptr 0 0) (Ptr 0 0) (Ptr 1 0) (dlit 2) 1 of
      Inl e \<Rightarrow> None
    | Inr m' \<Rightarrow> m' 0) = Some [dlit 13] \<and>
   (case daxpy_c [0 \<mapsto> [dlit 13], 1 \<mapsto> [dlit 11]] (Ptr 0 0) (Ptr 0 0) (Ptr 1 0) (dlit 2) 1 of
      Inl e \<Rightarrow> None
    | Inr m' \<Rightarrow> m' 0) = Some [dlit 37] \<and>
   dlit 13 \<noteq> dlit 1 \<and> dlit 37 \<noteq> dlit 13"
  by (simp add: daxpy_c_def daxpy_c_loop.simps load_def store_def dlit_def round_eval)

text \<open>
  Claim C10, amended. When no cell of the output \<open>z[0..n)\<close> is a cell of \<open>x[0..n)\<close> or
  \<open>y[0..n)\<close> (as for the separately allocated buffers of every call in the program),
  \<^verbatim>\<open>daxpy_c\<close> returns, \<open>x\<close> and \<open>y\<close> hold their values as before, every access outside
  \<open>z[0..n)\<close> gives what it gave before, a further call on the resulting memory leaves
  this memory as it is, and the timed calls of \<^verbatim>\<open>run_test\<close> end in the memory of the
  first call. The scalar \<open>A\<close> is passed by value: the kernel has no access to the
  caller's variable.
\<close>

theorem daxpy_c_frame:
  assumes "length xs = n" and "length ys = n"
    and "\<forall>i<n. load m x i = Inr (xs ! i)"
    and "\<forall>i<n. load m y i = Inr (ys ! i)"
    and "\<forall>i<n. \<exists>v. load m z i = Inr v"
    and "\<forall>i<n. \<forall>j<n. elem z i \<noteq> elem x j \<and> elem z i \<noteq> elem y j"
  shows "\<exists>m'. daxpy_c m z x y A n = Inr m' \<and>
           (\<forall>i<n. load m' x i = Inr (xs ! i) \<and> load m' y i = Inr (ys ! i)) \<and>
           (\<forall>p k. (\<forall>i<n. elem p k \<noteq> elem z i) \<longrightarrow> load m' p k = load m p k) \<and>
           daxpy_c m' z x y A n = Inr m' \<and>
           (\<forall>E acc s. mem s = m \<longrightarrow>
              (\<exists>acc' s'. timed_runs (time_c E z x y A n) 0 acc s = Inr (acc', s') \<and> mem s' = m'))"
proof -
  obtain m' where m': "daxpy_c m z x y A n = Inr m'"
    "\<forall>i<n. load m' x i = Inr (xs ! i) \<and> load m' y i = Inr (ys ! i)"
    "\<forall>p k. (\<forall>i<n. elem p k \<noteq> elem z i) \<longrightarrow> load m' p k = load m p k"
    "daxpy_c m' z x y A n = Inr m'"
    using daxpy_c_separate[OF assms(3,4,5,6), of A] by blast
  have "\<exists>acc' s'. timed_runs (time_c E z x y A n) 0 acc s = Inr (acc', s') \<and> mem s' = m'"
    if "mem s = m" for E acc s
    using timed_runs_c[of s z x y A n m' E acc] m'(1,4) that by auto
  then show ?thesis using m' by blast
qed

theorem daxpy_c_frame_witness:
  "\<exists>m'. daxpy_c [0 \<mapsto> [dlit 1, dlit 2], 1 \<mapsto> [dlit 3, dlit 4], 2 \<mapsto> [dlit 0, dlit 0]]
           (Ptr 2 0) (Ptr 0 0) (Ptr 1 0) (dlit 2) 2 = Inr m' \<and>
        load m' (Ptr 0 0) 1 = Inr (dlit 2) \<and> load m' (Ptr 1 0) 1 = Inr (dlit 4) \<and>
        daxpy_c m' (Ptr 2 0) (Ptr 0 0) (Ptr 1 0) (dlit 2) 2 = Inr m' \<and>
        (\<exists>acc' s'. timed_runs (time_c example_env (Ptr 2 0) (Ptr 0 0) (Ptr 1 0) (dlit 2) 2) 0 (dlit 0)
             (initial\<lparr>mem := [0 \<mapsto> [dlit 1, dlit 2], 1 \<mapsto> [dlit 3, dlit 4], 2 \<mapsto> [dlit 0, dlit 0]]\<rparr>) =
           Inr (acc', s') \<and> mem s' = m')"
proof -
  let ?m = "[0 \<mapsto> [dlit 1, dlit 2], 1 \<mapsto> [dlit 3, dlit 4], 2 \<mapsto> [dlit 0, dlit 0]] :: memory"
  have h1: "\<forall>i<2. load ?m (Ptr 0 0) i = Inr ([dlit 1, dlit 2] ! i)"
    by (simp add: load_def)
  have h2: "\<forall>i<2. load ?m (Ptr 1 0) i = Inr ([dlit 3, dlit 4] ! i)"
    by (simp add: load_def)
  have h3: "\<forall>i<2. \<exists>v. load ?m (Ptr 2 0) i = Inr v"
    by (simp add: load_def)
  have h4: "\<forall>i<2. \<forall>j<2. elem (Ptr 2 0) i \<noteq> elem (Ptr 0 0) j \<and> elem (Ptr 2 0) i \<noteq> elem (Ptr 1 0) j"
    by simp
  obtain m' where m': "daxpy_c ?m (Ptr 2 0) (Ptr 0 0) (Ptr 1 0) (dlit 2) 2 = Inr m'"
    "\<forall>i<2. load m' (Ptr 0 0) i = Inr ([dlit 1, dlit 2] ! i) \<and>
            load m' (Ptr 1 0) i = Inr ([dlit 3, dlit 4] ! i)"
    "daxpy_c m' (Ptr 2 0) (Ptr 0 0) (Ptr 1 0) (dlit 2) 2 = Inr m'"
    "\<forall>E acc s. mem s = ?m \<longrightarrow>
       (\<exists>acc' s'. timed_runs (time_c E (Ptr 2 0) (Ptr 0 0) (Ptr 1 0) (dlit 2) 2) 0 acc s =
          Inr (acc', s') \<and> mem s' = m')"
    using daxpy_c_frame[OF _ _ h1 h2 h3 h4, of "dlit 2"] by auto
  have "load m' (Ptr 0 0) 1 = Inr (dlit 2)" "load m' (Ptr 1 0) 1 = Inr (dlit 4)"
    using m'(2) by force+
  moreover have "\<exists>acc' s'. timed_runs (time_c example_env (Ptr 2 0) (Ptr 0 0) (Ptr 1 0) (dlit 2) 2) 0 (dlit 0)
      (initial\<lparr>mem := ?m\<rparr>) = Inr (acc', s') \<and> mem s' = m'"
    using m'(4) by simp
  ultimately show ?thesis using m'(1,3) by blast
qed

section \<open>The timing harness\<close>

lemma concat_map_single: "concat (map (\<lambda>j. [f j]) xs) = map f xs"
  by (induction xs) auto

lemma filter_timing_events:
  assumes "\<And>j. is_call (call j)"
  shows "filter is_call (timing_events E c call) = map call [0..<30]"
proof -
  have "filter is_call (timing_events E c call) = concat (map (\<lambda>j. [call j]) [0..<30])"
    unfolding timing_events_def filter_concat map_map comp_def using assms by simp
  then show ?thesis by (simp only: concat_map_single)
qed

lemma filter_is_call_report: "\<forall>e\<in>set rep. is_report e \<Longrightarrow> filter is_call rep = []"
proof (induction rep)
  case Nil
  then show ?case by simp
next
  case (Cons e rep)
  then have "is_report e" by simp
  then have "\<not> is_call e" by (cases e) auto
  then show ?case using Cons by simp
qed

text \<open>
  Claim C5, as it is stated, fails for a size whose allocation fails: \<^verbatim>\<open>run_test\<close> then
  returns after the failure message, without a call of either kernel and without an
  average. Here every allocation fails, at the size \<open>2 ^ 28\<close>.
\<close>

theorem timing_harness_alloc_counterexample:
  "(case run_test (example_env\<lparr>malloc_ok := (\<lambda>k. False)\<rparr>) (2 ^ 28) initial of
      Inl e \<Rightarrow> []
    | Inr s' \<Rightarrow> trace s') = [SizeBanner (2 ^ 28), AllocFailed] \<and>
   filter is_call [SizeBanner (2 ^ 28), AllocFailed] = []"
  by (simp add: run_test_def malloc_def free_def emit_def andthen_def initial_def example_env_def)

text \<open>
  Claim C5, amended. Let the four allocations of \<^verbatim>\<open>run_test\<close> succeed, for a size \<open>n\<close>
  with \<open>n * 8 < 2 ^ 64\<close>, from a state with fresh block numbers, and let the linked
  kernel return and write only its output buffer. Then \<^verbatim>\<open>run_test\<close> returns and its
  trace is: the banner; thirty times a clock read, the call of \<^verbatim>\<open>daxpy_c\<close> on the same
  buffers \<open>zC\<close>, \<open>x\<close>, \<open>y\<close>, a clock read; thirty times the same around \<^verbatim>\<open>daxpy_asm\<close> on
  \<open>zA\<close>, \<open>x\<close>, \<open>y\<close>; report lines; and the averages, each the sum of the thirty durations
  of its kernel divided by thirty, in \<^verbatim>\<open>double\<close> arithmetic. The trace has no other
  kernel call.
\<close>

theorem timing_harness_mean:
  assumes "kernel_ok (daxpy_asm E)" and "fresh s" and "n * 8 < 2 ^ 64"
    and "\<not> alloc_fails E (mallocs s)"
  shows "\<exists>s' rep. run_test E n s = Inr s' \<and>
           trace s' = trace s @ SizeBanner n #
             timing_events E (clocks s)
               (\<lambda>j. CallC (Ptr (blocks s + 2) 0) (Ptr (blocks s) 0) (Ptr (blocks s + 1) 0) (dlit 2) n) @
             timing_events E (clocks s + 60)
               (\<lambda>j. CallAsm (Ptr (blocks s + 3) 0) (Ptr (blocks s) 0) (Ptr (blocks s + 1) 0)
                      (Ptr (blocks s + 4 + j) 0) n) @
             rep @
             [AvgTimes (ddiv (sum_durations E (clocks s)) (double_of_int 30))
                       (ddiv (sum_durations E (clocks s + 60)) (double_of_int 30))] \<and>
           (\<forall>e\<in>set rep. is_report e) \<and>
           filter is_call (drop (length (trace s)) (trace s')) =
             replicate 30 (CallC (Ptr (blocks s + 2) 0) (Ptr (blocks s) 0) (Ptr (blocks s + 1) 0)
                             (dlit 2) n) @
             map (\<lambda>j. CallAsm (Ptr (blocks s + 3) 0) (Ptr (blocks s) 0) (Ptr (blocks s + 1) 0)
                        (Ptr (blocks s + 4 + j) 0) n) [0..<30]"
proof -
  let ?cc = "\<lambda>j::nat. CallC (Ptr (blocks s + 2) 0) (Ptr (blocks s) 0) (Ptr (blocks s + 1) 0) (dlit 2) n"
  let ?ca = "\<lambda>j. CallAsm (Ptr (blocks s + 3) 0) (Ptr (blocks s) 0) (Ptr (blocks s + 1) 0)
                   (Ptr (blocks s + 4 + j) 0) n"
  let ?avg = "AvgTimes (ddiv (sum_durations E (clocks s)) (double_of_int 30))
                       (ddiv (sum_durations E (clocks s + 60)) (double_of_int 30))"
  obtain s' rep where s': "run_test E n s = Inr s'"
    "trace s' = trace s @ SizeBanner n # timing_events E (clocks s) ?cc @
       timing_events E (clocks s + 60) ?ca @ rep @ [?avg]"
    "\<forall>e\<in>set rep. is_report e"
    using run_test_success[OF assms] by blast
  have "drop (length (trace s)) (trace s') = SizeBanner n # timing_events E (clocks s) ?cc @
       timing_events E (clocks s + 60) ?ca @ rep @ [?avg]"
    using s'(2) by simp
  then have "filter is_call (drop (length (trace s)) (trace s')) = map ?cc [0..<30] @ map ?ca [0..<30]"
    using filter_timing_events[of ?cc E "clocks s"] filter_timing_events[of ?ca E "clocks s + 60"]
      filter_is_call_report[OF s'(3)]
    by simp
  moreover have "map ?cc [0..<30] = replicate 30 (?cc 0)"
    by (simp only: map_replicate_const) simp
  ultimately show ?thesis using s' by auto
qed

lemma fresh_initial: "fresh initial"
  by (simp add: fresh_def initial_def)

theorem timing_harness_mean_witness:
  "kernel_ok (daxpy_asm example_env) \<and> fresh initial \<and> (2::nat) * 8 < 2 ^ 64 \<and>
   \<not> alloc_fails example_env (mallocs initial) \<and>
   (\<exists>s' rep. run_test example_env 2 initial = Inr s' \<and>
      trace s' = SizeBanner 2 #
        timing_events example_env 0 (\<lambda>j. CallC (Ptr 2 0) (Ptr 0 0) (Ptr 1 0) (dlit 2) 2) @
        timing_events example_env 60 (\<lambda>j. CallAsm (Ptr 3 0) (Ptr 0 0) (Ptr 1 0) (Ptr (4 + j) 0) 2) @
        rep @
        [AvgTimes (ddiv (sum_durations example_env 0) (double_of_int 30))
                  (ddiv (sum_durations example_env 60) (double_of_int 30))])"
proof -
  have h1: "kernel_ok (daxpy_asm example_env)"
    using kernel_ok_contract by (simp add: example_env_def)
  have h3: "(2::nat) * 8 < 2 ^ 64" by simp
  have h4: "\<not> alloc_fails example_env (mallocs initial)"
    by (simp add: alloc_fails_def example_env_def)
  obtain s' rep where r: "run_test example_env 2 initial = Inr s'"
    "trace s' = trace initial @ SizeBanner 2 #
       timing_events example_env (clocks initial)
         (\<lambda>j. CallC (Ptr (blocks initial + 2) 0) (Ptr (blocks initial) 0)
                (Ptr (blocks initial + 1) 0) (dlit 2) 2) @
       timing_events example_env (clocks initial + 60)
         (\<lambda>j. CallAsm (Ptr (blocks initial + 3) 0) (Ptr (blocks initial) 0)
                (Ptr (blocks initial + 1) 0) (Ptr (blocks initial + 4 + j) 0) 2) @
       rep @
       [AvgTimes (ddiv (sum_durations example_env (clocks initial)) (double_of_int 30))
                 (ddiv (sum_durations example_env (clocks initial + 60)) (double_of_int 30))]"
    using timing_harness_mean[OF h1 fresh_initial h3 h4] by blast
  have "trace s' = SizeBanner 2 #
        timing_events example_env 0 (\<lambda>j. CallC (Ptr 2 0) (Ptr 0 0) (Ptr 1 0) (dlit 2) 2) @
        timing_events example_env 60 (\<lambda>j. CallAsm (Ptr 3 0) (Ptr 0 0) (Ptr 1 0) (Ptr (4 + j) 0) 2) @
        rep @
        [AvgTimes (ddiv (sum_durations example_env 0) (double_of_int 30))
                  (ddiv (sum_durations example_env 60) (double_of_int 30))]"
    using r(2) by (simp add: initial_def numeral_2_eq_2)
  then show ?thesis using r(1) h1 fresh_initial h3 h4 by blast
qed

section \<open>Allocation failure, phases and exit status\<close>

text \<open>
  Claim C4. If one of the four allocations of \<^verbatim>\<open>run_test\<close> fails, \<^verbatim>\<open>run_test\<close> prints
  the banner and the failure message, leaves the memory as it was before the call (every
  block it allocated is freed) and returns. In \<^verbatim>\<open>main\<close>, with a linked kernel that
  returns and writes only its output buffer, every pattern of allocation failures leads
  to a run that goes through the three sizes and returns 0; the report of a size
  whose allocation fails is the failure message alone.
\<close>

theorem alloc_failure_is_local:
  "(fresh s \<and> alloc_fails E (mallocs s) \<longrightarrow>
      (\<exists>s'. run_test E n s = Inr s' \<and> mem s' = mem s \<and> mallocs s' = mallocs s + 4 \<and>
            trace s' = trace s @ [SizeBanner n, AllocFailed])) \<and>
   (kernel_ok (daxpy_asm E) \<and> fresh s \<longrightarrow>
      (\<exists>s' v r1 r2 r3. main E s = Inr (0, s') \<and> mem s' = mem s \<and>
         trace s' = trace s @ VerifyBanner # v @ SizeBanner (2 ^ 20) # r1 @
           SizeBanner (2 ^ 24) # r2 @ SizeBanner (2 ^ 28) # r3 @ [AllDone] \<and>
         (\<forall>e\<in>set (v @ r1 @ r2 @ r3). \<not> is_banner e) \<and>
         (alloc_fails E (mallocs s) \<longrightarrow> r1 = [AllocFailed]) \<and>
         (alloc_fails E (mallocs s + 4) \<longrightarrow> r2 = [AllocFailed]) \<and>
         (alloc_fails E (mallocs s + 8) \<longrightarrow> r3 = [AllocFailed])))"
proof (intro conjI impI)
  assume a: "fresh s \<and> alloc_fails E (mallocs s)"
  then show "\<exists>s'. run_test E n s = Inr s' \<and> mem s' = mem s \<and> mallocs s' = mallocs s + 4 \<and>
      trace s' = trace s @ [SizeBanner n, AllocFailed]"
    using run_test_alloc_failure[of s E n] by blast
next
  assume a: "kernel_ok (daxpy_asm E) \<and> fresh s"
  then obtain s' v r1 r2 r3 where r: "main E s = Inr (0, s')" "mem s' = mem s"
    "trace s' = trace s @ VerifyBanner # v @ SizeBanner (2 ^ 20) # r1 @
       SizeBanner (2 ^ 24) # r2 @ SizeBanner (2 ^ 28) # r3 @ [AllDone]"
    "\<forall>e\<in>set v. \<not> is_banner e \<and> \<not> bench_only e"
    "\<forall>e\<in>set (r1 @ r2 @ r3). \<not> is_banner e \<and> \<not> verify_only e"
    "alloc_fails E (mallocs s) \<longrightarrow> r1 = [AllocFailed]"
    "alloc_fails E (mallocs s + 4) \<longrightarrow> r2 = [AllocFailed]"
    "alloc_fails E (mallocs s + 8) \<longrightarrow> r3 = [AllocFailed]"
    using main_runs[of E s] by blast
  have "\<forall>e\<in>set (v @ r1 @ r2 @ r3). \<not> is_banner e" using r(4,5) by auto
  then show "\<exists>s' v r1 r2 r3. main E s = Inr (0, s') \<and> mem s' = mem s \<and>
         trace s' = trace s @ VerifyBanner # v @ SizeBanner (2 ^ 20) # r1 @
           SizeBanner (2 ^ 24) # r2 @ SizeBanner (2 ^ 28) # r3 @ [AllDone] \<and>
         (\<forall>e\<in>set (v @ r1 @ r2 @ r3). \<not> is_banner e) \<and>
         (alloc_fails E (mallocs s) \<longrightarrow> r1 = [AllocFailed]) \<and>
         (alloc_fails E (mallocs s + 4) \<longrightarrow> r2 = [AllocFailed]) \<and>
         (alloc_fails E (mallocs s + 8) \<longrightarrow> r3 = [AllocFailed])"
    using r(1,2,3,6,7,8) by blast
qed

theorem alloc_failure_is_local_witness:
  "fresh (initial\<lparr>mallocs := 4\<rparr>) \<and>
   alloc_fails (example_env\<lparr>malloc_ok := (\<lambda>k. k \<noteq> 5)\<rparr>) (mallocs (initial\<lparr>mallocs := 4\<rparr>)) \<and>
   (\<exists>s'. run_test (example_env\<lparr>malloc_ok := (\<lambda>k. k \<noteq> 5)\<rparr>) 7 (initial\<lparr>mallocs := 4\<rparr>) = Inr s' \<and>
      mem s' = Map.empty \<and> mallocs s' = 8 \<and> trace s' = [SizeBanner 7, AllocFailed]) \<and>
   kernel_ok (daxpy_asm (example_env\<lparr>malloc_ok := (\<lambda>k. k \<noteq> 5)\<rparr>)) \<and> fresh initial \<and>
   (\<exists>s' v r1 r3. main (example_env\<lparr>malloc_ok := (\<lambda>k. k \<noteq> 5)\<rparr>) initial = Inr (0, s') \<and>
      mem s' = Map.empty \<and>
      trace s' = VerifyBanner # v @ SizeBanner (2 ^ 20) # r1 @
        SizeBanner (2 ^ 24) # [AllocFailed] @ SizeBanner (2 ^ 28) # r3 @ [AllDone])"
proof -
  let ?E = "example_env\<lparr>malloc_ok := (\<lambda>k. k \<noteq> 5)\<rparr>"
  let ?s = "initial\<lparr>mallocs := 4\<rparr>"
  have h1: "fresh ?s" by (simp add: fresh_def initial_def)
  have h2: "alloc_fails ?E (mallocs ?s)" by (simp add: alloc_fails_def initial_def)
  have h3: "kernel_ok (daxpy_asm ?E)" using kernel_ok_contract by (simp add: example_env_def)
  have h4: "alloc_fails ?E (mallocs initial + 4)" by (simp add: alloc_fails_def initial_def)
  obtain s1 where s1: "run_test ?E 7 ?s = Inr s1" "mem s1 = mem ?s" "mallocs s1 = mallocs ?s + 4"
    "trace s1 = trace ?s @ [SizeBanner 7, AllocFailed]"
    using alloc_failure_is_local[of ?s ?E 7] h1 h2 by blast
  have a: "\<exists>s'. run_test ?E 7 ?s = Inr s' \<and> mem s' = Map.empty \<and> mallocs s' = 8 \<and>
      trace s' = [SizeBanner 7, AllocFailed]"
    using s1 by (simp add: initial_def)
  obtain s2 v r1 r2 r3 where s2: "main ?E initial = Inr (0, s2)" "mem s2 = mem initial"
    "trace s2 = trace initial @ VerifyBanner # v @ SizeBanner (2 ^ 20) # r1 @
       SizeBanner (2 ^ 24) # r2 @ SizeBanner (2 ^ 28) # r3 @ [AllDone]"
    "alloc_fails ?E (mallocs initial + 4) \<longrightarrow> r2 = [AllocFailed]"
    using alloc_failure_is_local[of initial ?E] h3 fresh_initial by blast
  have "r2 = [AllocFailed]" using s2(4) h4 by blast
  then have b: "\<exists>s' v r1 r3. main ?E initial = Inr (0, s') \<and> mem s' = Map.empty \<and>
      trace s' = VerifyBanner # v @ SizeBanner (2 ^ 20) # r1 @
        SizeBanner (2 ^ 24) # [AllocFailed] @ SizeBanner (2 ^ 28) # r3 @ [AllDone]"
    using s2(1,2,3) by (auto simp: initial_def)
  show ?thesis using h1 h2 a h3 fresh_initial b by blast
qed

lemma filter_is_banner_none: "\<forall>e\<in>set r. \<not> is_banner e \<Longrightarrow> filter is_banner r = []"
  by (induction r) auto

text \<open>
  Claim C7. With a linked kernel that returns and writes only its output buffer, from a
  state with fresh block numbers, \<^verbatim>\<open>main\<close> returns and its trace is: the verification
  banner, events of the verification (no banner and nothing that only a benchmark
  prints), then the events of the benchmark phase (nothing that only the verification
  prints), which begin with the banner of size \<open>2 ^ 20\<close> and whose banners are those of
  \<open>2 ^ 20\<close>, \<open>2 ^ 24\<close> and \<open>2 ^ 28\<close> in this order, and the closing banner.
\<close>

theorem two_phases_in_order:
  assumes "kernel_ok (daxpy_asm E)" and "fresh s"
  shows "\<exists>s' tv tb. main E s = Inr (0, s') \<and>
           trace s' = trace s @ VerifyBanner # tv @ tb @ [AllDone] \<and>
           (\<forall>e\<in>set tv. \<not> is_banner e \<and> \<not> bench_only e) \<and>
           (\<forall>e\<in>set tb. \<not> verify_only e) \<and>
           take 1 tb = [SizeBanner (2 ^ 20)] \<and>
           filter is_banner tb = [SizeBanner (2 ^ 20), SizeBanner (2 ^ 24), SizeBanner (2 ^ 28)]"
proof -
  obtain s' v r1 r2 r3 where r: "main E s = Inr (0, s')"
    "trace s' = trace s @ VerifyBanner # v @ SizeBanner (2 ^ 20) # r1 @
       SizeBanner (2 ^ 24) # r2 @ SizeBanner (2 ^ 28) # r3 @ [AllDone]"
    "\<forall>e\<in>set v. \<not> is_banner e \<and> \<not> bench_only e"
    "\<forall>e\<in>set (r1 @ r2 @ r3). \<not> is_banner e \<and> \<not> verify_only e"
    using main_runs[OF assms] by blast
  let ?tb = "SizeBanner (2 ^ 20) # r1 @ SizeBanner (2 ^ 24) # r2 @ SizeBanner (2 ^ 28) # r3"
  have f: "filter is_banner r1 = []" "filter is_banner r2 = []" "filter is_banner r3 = []"
    using r(4) by (auto intro: filter_is_banner_none)
  have "trace s' = trace s @ VerifyBanner # v @ ?tb @ [AllDone]" using r(2) by simp
  moreover have "\<forall>e\<in>set ?tb. \<not> verify_only e" using r(4) by auto
  moreover have "take 1 ?tb = [SizeBanner (2 ^ 20)]" by simp
  moreover have "filter is_banner ?tb = [SizeBanner (2 ^ 20), SizeBanner (2 ^ 24), SizeBanner (2 ^ 28)]"
    using f by simp
  ultimately show ?thesis using r(1,3) by blast
qed

theorem two_phases_in_order_witness:
  "kernel_ok (daxpy_asm example_env) \<and> fresh initial \<and>
   (\<exists>s' tv tb. main example_env initial = Inr (0, s') \<and>
      trace s' = VerifyBanner # tv @ tb @ [AllDone] \<and>
      take 1 tb = [SizeBanner (2 ^ 20)] \<and>
      filter is_banner tb = [SizeBanner (2 ^ 20), SizeBanner (2 ^ 24), SizeBanner (2 ^ 28)])"
proof -
  have h1: "kernel_ok (daxpy_asm example_env)"
    using kernel_ok_contract by (simp add: example_env_def)
  obtain s' tv tb where r: "main example_env initial = Inr (0, s')"
    "trace s' = trace initial @ VerifyBanner # tv @ tb @ [AllDone]"
    "take 1 tb = [SizeBanner (2 ^ 20)]"
    "filter is_banner tb = [SizeBanner (2 ^ 20), SizeBanner (2 ^ 24), SizeBanner (2 ^ 28)]"
    using two_phases_in_order[OF h1 fresh_initial] by blast
  have "trace s' = VerifyBanner # tv @ tb @ [AllDone]" using r(2) by (simp add: initial_def)
  then show ?thesis using h1 fresh_initial r(1,3,4) by blast
qed

lemma kernel_ok_zero: "kernel_ok zero_kernel"
  unfolding kernel_ok_def
proof (intro allI impI, elim conjE)
  fix m :: memory and zb xb yb ab :: nat and zs xs ys :: "double list" and A :: double and n :: nat
  assume "m zb = Some zs" "length zs = n"
  then show "\<exists>zs'. length zs' = n \<and>
      zero_kernel m (Ptr zb 0) (Ptr xb 0) (Ptr yb 0) (Ptr ab 0) n = Inr (m(zb \<mapsto> zs'))"
    by (intro exI[of _ "replicate n (dlit 0)"]) (simp add: zero_kernel_def)
qed

text \<open>
  Claim C8. Whenever \<^verbatim>\<open>main\<close> returns, it returns 0; and it does return, with 0, for
  every linked kernel that returns and writes only its output buffer, whatever the
  allocations and the results of the kernel are. The example is a run with a mismatch in
  the verification and an allocation failure at every size.
\<close>

theorem main_exit_status:
  "(main E s = Inr (rc, s') \<longrightarrow> rc = 0) \<and>
   (kernel_ok (daxpy_asm E) \<and> fresh s \<longrightarrow> (\<exists>s''. main E s = Inr (0, s'')))"
proof (intro conjI impI)
  assume "main E s = Inr (rc, s')"
  then show "rc = 0"
    by (auto simp: main_def andthen_def Let_def split: sum.splits)
next
  assume "kernel_ok (daxpy_asm E) \<and> fresh s"
  then show "\<exists>s''. main E s = Inr (0, s'')" using main_runs[of E s] by blast
qed

lemma main_mismatch_run:
  "(case main (example_env\<lparr>malloc_ok := (\<lambda>k. False), daxpy_asm := zero_kernel\<rparr>) initial of
      Inl e \<Rightarrow> []
    | Inr (rc, s') \<Rightarrow> trace s') =
   [VerifyBanner,
    ShowInput (dlit 2) [dlit 1, dlit 2, dlit 3] [dlit 11, dlit 12, dlit 13],
    ShowProcess 0 (dlit 2) (dlit 1) (dlit 11) (dlit 13),
    ShowProcess 1 (dlit 2) (dlit 2) (dlit 12) (dlit 16),
    ShowProcess 2 (dlit 2) (dlit 3) (dlit 13) (dlit 19),
    CallC (Ptr 3 0) (Ptr 1 0) (Ptr 2 0) (dlit 2) 3,
    CallAsm (Ptr 4 0) (Ptr 1 0) (Ptr 2 0) (Ptr 0 0) 3,
    ShowOutputC [dlit 13, dlit 16, dlit 19],
    ShowOutputAsm [dlit 0, dlit 0, dlit 0],
    Mismatch 0 (dlit 13) (dlit 0) (dlit 13),
    VerifyVerdict False,
    SizeBanner (2 ^ 20), AllocFailed,
    SizeBanner (2 ^ 24), AllocFailed,
    SizeBanner (2 ^ 28), AllocFailed,
    AllDone]"
  by (simp add: main_def run_test_def malloc_def free_def initial_def example_env_def zero_kernel_def
      verify_with_example_def new_block_def emit_def load3_def andthen_def
      show_process_loop.simps call_daxpy_c_def call_daxpy_asm_def
      daxpy_c_def daxpy_c_loop.simps check_correctness_def check_correctness_loop.simps
      load_def store_def round_eval dsub_def dlit_small EPS_value)

theorem main_exit_status_witness:
  "\<exists>s'. main (example_env\<lparr>malloc_ok := (\<lambda>k. False), daxpy_asm := zero_kernel\<rparr>) initial = Inr (0, s') \<and>
     trace s' =
       [VerifyBanner,
        ShowInput (dlit 2) [dlit 1, dlit 2, dlit 3] [dlit 11, dlit 12, dlit 13],
        ShowProcess 0 (dlit 2) (dlit 1) (dlit 11) (dlit 13),
        ShowProcess 1 (dlit 2) (dlit 2) (dlit 12) (dlit 16),
        ShowProcess 2 (dlit 2) (dlit 3) (dlit 13) (dlit 19),
        CallC (Ptr 3 0) (Ptr 1 0) (Ptr 2 0) (dlit 2) 3,
        CallAsm (Ptr 4 0) (Ptr 1 0) (Ptr 2 0) (Ptr 0 0) 3,
        ShowOutputC [dlit 13, dlit 16, dlit 19],
        ShowOutputAsm [dlit 0, dlit 0, dlit 0],
        Mismatch 0 (dlit 13) (dlit 0) (dlit 13),
        VerifyVerdict False,
        SizeBanner (2 ^ 20), AllocFailed,
        SizeBanner (2 ^ 24), AllocFailed,
        SizeBanner (2 ^ 28), AllocFailed,
        AllDone]"
proof -
  let ?E = "example_env\<lparr>malloc_ok := (\<lambda>k. False), daxpy_asm := zero_kernel\<rparr>"
  have ok: "kernel_ok (daxpy_asm ?E)" using kernel_ok_zero by simp
  obtain s'' where run: "main ?E initial = Inr (0, s'')"
    using main_exit_status[of ?E initial] ok fresh_initial by blast
  then show ?thesis using main_mismatch_run by simp
qed

end
